theory Spec2Isabelle
  imports Main "HOL-Library.Char_ord" "HOL-Library.List_Lexorder" "HOL-Library.AList"
begin

section \<open>Expression values and WHERE conditions\<close>

text \<open>
  The file \<^verbatim>\<open>src/parser/query_api.go\<close> is the high level API of the query object.
  The declarations of \<^verbatim>\<open>Value\<close>, \<^verbatim>\<open>WhereCondition\<close> and \<^verbatim>\<open>FromClause\<close> live in
  another file of package \<^verbatim>\<open>parser\<close>; the types below follow the fields that
  \<^verbatim>\<open>query_api.go\<close> reads and the data model of the specification.
\<close>

text \<open>Modelled from the spec: the type tag of a \<^verbatim>\<open>Value\<close> (section 3, field \<^verbatim>\<open>kind\<close>),
  with the constant names that \<^verbatim>\<open>query_api.go\<close> uses.\<close>

datatype ValueType =
    ValueRegex | ValueInt | ValueFloat | ValueString | ValueTableName
  | ValueSimpleName | ValueDuration | ValueWildcard | ValueFunctionCall
  | ValueExpression

text \<open>Modelled from the spec: the struct \<^verbatim>\<open>Value\<close> (section 3): the textual payload
  \<^verbatim>\<open>Name\<close>, the tag \<^verbatim>\<open>Type\<close>, the children \<^verbatim>\<open>Elems\<close> and whether a compiled regex is
  attached.\<close>

datatype Value =
  Value (Name: string) (Type: ValueType) (Elems: "Value list") (compiledRegex: bool)

text \<open>Modelled from the spec: \<^verbatim>\<open>IsFunctionCall\<close> tests the tag, \<^verbatim>\<open>GetCompiledRegex\<close>
  reports whether a compiled regex is present.\<close>

definition IsFunctionCall :: "Value \<Rightarrow> bool" where
  "IsFunctionCall v = (Type v = ValueFunctionCall)"

definition GetCompiledRegex :: "Value \<Rightarrow> bool" where
  "GetCompiledRegex v = compiledRegex v"

text \<open>Modelled from the spec: a Where-Condition node (section 3) is a leaf holding a
  boolean expression, or an interior node with an operation and two subtrees. This is
  the tree as a value; the in-place updates that \<^verbatim>\<open>getTime\<close> performs on the nodes are
  treated in the section on the node store.\<close>

datatype WhereCondition =
    BoolExpression Value
  | Condition WhereCondition string WhereCondition

section \<open>Errors, 64-bit integers and timestamps\<close>

text \<open>
  The Go code builds its errors with \<^verbatim>\<open>fmt.Errorf\<close>; the constructors carry the names
  of section 7 of the specification. \<open>InvalidDuration\<close> stands for a failure of
  \<^verbatim>\<open>common.ParseTimeDuration\<close>, and \<open>IndexOutOfRange\<close> for the run-time panic of an
  index expression \<^verbatim>\<open>Elems[i]\<close> beyond the length of the slice.
\<close>

datatype error =
    InvalidWhereExpression Value
  | InvalidFunctionInTimeContext string
  | InvalidTimeString string
  | InvalidDuration string
  | InvalidTimeOperator string
  | ConflictingOrTimeBounds
  | InvalidTimeCondition
  | IndexOutOfRange

text \<open>Go's \<^verbatim>\<open>int64\<close>: an integer with the two's complement wrap-around written out;
  \<^verbatim>\<open>/\<close> truncates towards zero and \<^verbatim>\<open>%\<close> is its remainder.\<close>

definition wrap64 :: "int \<Rightarrow> int" where
  "wrap64 x = (x + 2 ^ 63) mod 2 ^ 64 - 2 ^ 63"

definition quo64 :: "int \<Rightarrow> int \<Rightarrow> int" where
  "quo64 a b = wrap64 (sgn a * sgn b * (\<bar>a\<bar> div \<bar>b\<bar>))"

definition rem64 :: "int \<Rightarrow> int \<Rightarrow> int" where
  "rem64 a b = a - b * (sgn a * sgn b * (\<bar>a\<bar> div \<bar>b\<bar>))"

text \<open>
  A \<^verbatim>\<open>time.Time\<close> of the Go standard library is a struct of the seconds, the
  nanoseconds within the second and a location pointer, and \<^verbatim>\<open>==\<close> on it compares all
  three. \<^verbatim>\<open>time.Unix\<close> normalises the nanoseconds into \<open>[0, 10^9)\<close> and sets the
  location \<^verbatim>\<open>Local\<close>; the method \<^verbatim>\<open>UTC\<close> replaces the location; \<^verbatim>\<open>Unix\<close> (the method)
  returns the seconds.
\<close>

datatype Location = Local | UTC

record Time =
  unix_sec :: int
  unix_nsec :: int
  location :: Location

definition Second :: int where
  "Second = 1000000000"

definition time_Unix :: "int \<Rightarrow> int \<Rightarrow> Time" where
  "time_Unix sec nsec =
    (if nsec < 0 \<or> nsec \<ge> 1000000000 then
       (let n = quo64 nsec 1000000000;
            sec1 = wrap64 (sec + n);
            nsec1 = wrap64 (nsec - wrap64 (n * 1000000000))
        in if nsec1 < 0
           then \<lparr>unix_sec = wrap64 (sec1 - 1), unix_nsec = wrap64 (nsec1 + 1000000000),
                 location = Local\<rparr>
           else \<lparr>unix_sec = sec1, unix_nsec = nsec1, location = Local\<rparr>)
     else \<lparr>unix_sec = sec, unix_nsec = nsec, location = Local\<rparr>)"

definition toUTC :: "Time \<Rightarrow> Time" where
  "toUTC t = t\<lparr>location := UTC\<rparr>"

definition Unix :: "Time \<Rightarrow> int" where
  "Unix t = unix_sec t"

definition ZERO_TIME :: Time where
  "ZERO_TIME = time_Unix 0 0"

text \<open>The expression
  \<^verbatim>\<open>time.Unix(nanoseconds/int64(time.Second), nanoseconds%int64(time.Second)).UTC()\<close>
  of lines 426 and 435.\<close>

definition timeOfNanoseconds :: "int \<Rightarrow> Time" where
  "timeOfNanoseconds nanoseconds =
     toUTC (time_Unix (quo64 nanoseconds Second) (rem64 nanoseconds Second))"

section \<open>Time expressions\<close>

text \<open>
  \<^verbatim>\<open>parseTime\<close> reads the wall clock (\<^verbatim>\<open>time.Now\<close>) and calls \<^verbatim>\<open>parseTimeString\<close> (a
  regular expression and \<^verbatim>\<open>time.Parse\<close>) and \<^verbatim>\<open>common.ParseTimeDuration\<close> (package
  \<^verbatim>\<open>common\<close>, not part of the file). The three are parameters of the model: for each
  of the two parsers its result, in nanoseconds, or its error; and the clock, as the
  sequence of its readings in nanoseconds, \<open>Now env k\<close> being the reading number \<open>k\<close>.
  The clock is read anew at every \<^verbatim>\<open>now()\<close> (line 232), so every function that may read
  it takes the number of readings made so far and returns that number, updated, beside
  its result.

  \<^verbatim>\<open>parseTime\<close> is lines 229 to 263: a value that is not an expression is \<^verbatim>\<open>now()\<close>,
  another function call (an error), a string or a duration; an expression has two
  operands, \<^verbatim>\<open>Elems[0]\<close> and \<^verbatim>\<open>Elems[1]\<close>, which are added or subtracted in \<^verbatim>\<open>int64\<close>.
\<close>

record TimeEnv =
  Now :: "nat \<Rightarrow> int"
  parseTimeString :: "string \<Rightarrow> error + int"
  ParseTimeDuration :: "string \<Rightarrow> error + int"

fun parseTime :: "TimeEnv \<Rightarrow> nat \<Rightarrow> Value \<Rightarrow> (error + int) \<times> nat" where
  "parseTime env k (Value name ty elems re) =
    (if ty \<noteq> ValueExpression then
       (if IsFunctionCall (Value name ty elems re) \<and> name = ''now''
          then (Inr (Now env k), Suc k)
        else if IsFunctionCall (Value name ty elems re)
          then (Inl (InvalidFunctionInTimeContext name), k)
        else if ty = ValueString then (parseTimeString env name, k)
        else (ParseTimeDuration env name, k))
     else
       (case elems of
          [] \<Rightarrow> (Inl IndexOutOfRange, k)
        | l # rest \<Rightarrow>
            (case parseTime env k l of
               (Inl e, k1) \<Rightarrow> (Inl e, k1)
             | (Inr leftValue, k1) \<Rightarrow>
                 (case rest of
                    [] \<Rightarrow> (Inl IndexOutOfRange, k1)
                  | r # _ \<Rightarrow>
                      (case parseTime env k1 r of
                         (Inl e, k2) \<Rightarrow> (Inl e, k2)
                       | (Inr rightValue, k2) \<Rightarrow>
                           if name = ''+'' then (Inr (wrap64 (leftValue + rightValue)), k2)
                           else if name = ''-'' then (Inr (wrap64 (leftValue - rightValue)), k2)
                           else (Inl (InvalidTimeOperator name), k2))))))"

text \<open>\<^verbatim>\<open>isNumericValue\<close> (lines 302 to 309).\<close>

definition isNumericValue :: "Value \<Rightarrow> bool" where
  "isNumericValue v =
     (Type v = ValueDuration \<or> Type v = ValueFloat \<or> Type v = ValueInt \<or> Type v = ValueString)"

section \<open>The time-bound extractor\<close>

text \<open>
  The leaf case of \<^verbatim>\<open>getTime\<close> (lines 363 to 436) is split in two here. The first
  component of a result says which pointer the Go code returns: \<open>True\<close> for
  \<^verbatim>\<open>condition\<close> itself (the leaf stays), \<open>False\<close> for \<^verbatim>\<open>nil\<close> (the leaf is consumed).
  The number beside the result is the number of clock readings after the call.

  \<open>getTimeOperator\<close> is the \<^verbatim>\<open>switch expr.Name\<close> of lines 411 to 429 with the
  statements after it (lines 431 to 435), which the cases \<^verbatim>\<open>">"\<close> and \<^verbatim>\<open>"<"\<close> reach
  when they do not return.
\<close>

definition getTimeOperator ::
  "TimeEnv \<Rightarrow> nat \<Rightarrow> Value \<Rightarrow> Value \<Rightarrow> bool \<Rightarrow> bool \<Rightarrow> bool
     \<Rightarrow> (error + (bool \<times> Time)) \<times> nat" where
  "getTimeOperator env k expr timeExpression isTimeOnLeft isTimeOnRight isParsingStartTime =
    (let afterSwitch =
       (case parseTime env k timeExpression of
          (Inl err, k1) \<Rightarrow> (Inl err, k1)
        | (Inr nanoseconds, k1) \<Rightarrow> (Inr (False, timeOfNanoseconds nanoseconds), k1))
     in
       if Name expr = ''>'' then
         (if isParsingStartTime \<and> \<not> isTimeOnLeft \<or> \<not> isParsingStartTime \<and> \<not> isTimeOnRight
          then (Inr (True, ZERO_TIME), k) else afterSwitch)
       else if Name expr = ''<'' then
         (if \<not> isParsingStartTime \<and> \<not> isTimeOnLeft \<or> isParsingStartTime \<and> \<not> isTimeOnRight
          then (Inr (True, ZERO_TIME), k) else afterSwitch)
       else if Name expr = ''='' then
         (case parseTime env k timeExpression of
            (Inl err, k1) \<Rightarrow> (Inl err, k1)
          | (Inr microseconds, k1) \<Rightarrow>
              (let nanoseconds = wrap64 (microseconds * 1000)
               in (Inr (True, timeOfNanoseconds nanoseconds), k1)))
       else (Inl (InvalidTimeOperator (Name expr)), k))"

text \<open>Lines 363 to 409: the kind of the expression, its two operands (an index beyond
  the slice panics) and the side on which the time stands.\<close>

definition getTimeBoolExpression ::
  "TimeEnv \<Rightarrow> nat \<Rightarrow> Value \<Rightarrow> bool \<Rightarrow> (error + (bool \<times> Time)) \<times> nat" where
  "getTimeBoolExpression env k expr isParsingStartTime =
    (if Type expr \<in> {ValueDuration, ValueFloat, ValueInt, ValueString, ValueWildcard}
     then (Inl (InvalidWhereExpression expr), k)
     else if Type expr = ValueFunctionCall then (Inr (True, ZERO_TIME), k)
     else
       (case Elems expr of
          [] \<Rightarrow> (Inl IndexOutOfRange, k)
        | [leftValue] \<Rightarrow> (Inl IndexOutOfRange, k)
        | leftValue # rightValue # _ \<Rightarrow>
           (let left0 = (Type leftValue \<noteq> ValueExpression \<and> Type leftValue \<noteq> ValueFunctionCall);
                right0 = (Type rightValue \<noteq> ValueExpression \<and> Type rightValue \<noteq> ValueFunctionCall);
                isTimeOnLeft = (if left0 \<and> right0 then isNumericValue rightValue else left0);
                isTimeOnRight = (if left0 \<and> right0 then \<not> isNumericValue rightValue else right0)
            in
              if \<not> isTimeOnLeft \<and> \<not> isTimeOnRight then (Inr (True, ZERO_TIME), k)
              else if \<not> isTimeOnRight then
                (if Name leftValue \<noteq> ''time'' then (Inr (True, ZERO_TIME), k)
                 else getTimeOperator env k expr rightValue isTimeOnLeft isTimeOnRight
                        isParsingStartTime)
              else if \<not> isTimeOnLeft then
                (if Name rightValue \<noteq> ''time'' then (Inr (True, ZERO_TIME), k)
                 else getTimeOperator env k expr leftValue isTimeOnLeft isTimeOnRight
                        isParsingStartTime)
              else (Inl InvalidTimeCondition, k))))"

text \<open>
  \<^verbatim>\<open>getTime\<close> (lines 358 to 476) on the tree as a value. The result is the error, or
  the condition that is left (\<open>None\<close> for \<^verbatim>\<open>nil\<close>) with the time found; beside it, the
  number of clock readings after the call.
\<close>

fun getTime ::
  "TimeEnv \<Rightarrow> nat \<Rightarrow> WhereCondition option \<Rightarrow> bool
     \<Rightarrow> (error + (WhereCondition option \<times> Time)) \<times> nat" where
  "getTime env k None isParsingStartTime = (Inr (None, ZERO_TIME), k)"
| "getTime env k (Some (BoolExpression expr)) isParsingStartTime =
    (case getTimeBoolExpression env k expr isParsingStartTime of
       (Inl err, k1) \<Rightarrow> (Inl err, k1)
     | (Inr (keep, t), k1) \<Rightarrow> (Inr (if keep then Some (BoolExpression expr) else None, t), k1))"
| "getTime env k (Some (Condition leftCondition operation rightCondition)) isParsingStartTime =
    (case getTime env k (Some leftCondition) isParsingStartTime of
       (Inl err, k1) \<Rightarrow> (Inl err, k1)
     | (Inr (newLeftCondition, timeLeft), k1) \<Rightarrow>
        (case getTime env k1 (Some rightCondition) isParsingStartTime of
           (Inl err, k2) \<Rightarrow> (Inl err, k2)
         | (Inr (newRightCondition, timeRight), k2) \<Rightarrow>
            if operation = ''OR'' \<and> (timeLeft \<noteq> ZERO_TIME \<or> timeRight \<noteq> ZERO_TIME)
            then (Inl ConflictingOrTimeBounds, k2)
            else
              (let newCondition =
                 (case newLeftCondition of
                    None \<Rightarrow> newRightCondition
                  | Some l \<Rightarrow>
                     (case newRightCondition of
                        None \<Rightarrow> Some l
                      | Some r \<Rightarrow> Some (Condition l operation r)))
               in
                 if timeLeft = ZERO_TIME then (Inr (newCondition, timeRight), k2)
                 else if timeRight = ZERO_TIME then (Inr (newCondition, timeLeft), k2)
                 else if isParsingStartTime \<and> Unix timeLeft < Unix timeRight
                   then (Inr (newCondition, timeLeft), k2)
                 else if \<not> isParsingStartTime \<and> Unix timeLeft > Unix timeRight
                   then (Inr (newCondition, timeLeft), k2)
                 else (Inr (newCondition, timeRight), k2))))"

section \<open>The time-bound extractor on a store of nodes\<close>

text \<open>
  In the Go code a condition is a pointer to a node, and \<^verbatim>\<open>getTime\<close> assigns to the
  fields \<^verbatim>\<open>Left\<close> and \<^verbatim>\<open>Right\<close> of the node it was given (lines 453 to 461:
  \<^verbatim>\<open>newCondition := condition\<close> copies the pointer, not the node). To state what this does
  to a tree that is used again, the nodes are kept in a store: a function from addresses
  to nodes; \<open>None\<close> is the \<^verbatim>\<open>nil\<close> pointer. Values are never written and stay values.
\<close>

type_synonym addr = nat

text \<open>Modelled from the spec: a node of the Where-Condition tree (section 3), its
  children being pointers.\<close>

datatype Node =
    BoolExpressionNode Value
  | ConditionNode "addr option" string "addr option"

type_synonym store = "addr \<Rightarrow> Node"

text \<open>The fields \<^verbatim>\<open>Right\<close> and \<^verbatim>\<open>Operation\<close> of a node, and the two assignments of lines
  459 and 460. A leaf has no right child and no operation.\<close>

fun Right :: "Node \<Rightarrow> addr option" where
  "Right (ConditionNode left operation right) = right"
| "Right (BoolExpressionNode expr) = None"

fun Operation :: "Node \<Rightarrow> string" where
  "Operation (ConditionNode left operation right) = operation"
| "Operation (BoolExpressionNode expr) = []"

fun assignLeftRight :: "Node \<Rightarrow> addr option \<Rightarrow> addr option \<Rightarrow> Node" where
  "assignLeftRight (ConditionNode left operation right) newLeft newRight =
     ConditionNode newLeft operation newRight"
| "assignLeftRight (BoolExpressionNode expr) newLeft newRight = BoolExpressionNode expr"

text \<open>
  \<^verbatim>\<open>getTime\<close> on the store. Each field is read from the store as it is at the line that
  reads it. The recursion follows pointers, which may form a cycle, so the function
  takes fuel: \<open>None\<close> says that the fuel did not suffice. A result carries the store
  and the number of clock readings after the call.
\<close>

fun getTimeStore ::
  "nat \<Rightarrow> TimeEnv \<Rightarrow> nat \<Rightarrow> store \<Rightarrow> addr option \<Rightarrow> bool
     \<Rightarrow> (store \<times> (error + (addr option \<times> Time)) \<times> nat) option" where
  "getTimeStore 0 env k h condition isParsingStartTime = None"
| "getTimeStore (Suc fuel) env k h None isParsingStartTime =
     Some (h, Inr (None, ZERO_TIME), k)"
| "getTimeStore (Suc fuel) env k h (Some a) isParsingStartTime =
    (case h a of
       BoolExpressionNode expr \<Rightarrow>
        (case getTimeBoolExpression env k expr isParsingStartTime of
           (Inl err, k1) \<Rightarrow> Some (h, Inl err, k1)
         | (Inr (keep, t), k1) \<Rightarrow> Some (h, Inr (if keep then Some a else None, t), k1))
     | ConditionNode leftCondition operation0 right0 \<Rightarrow>
        (case getTimeStore fuel env k h leftCondition isParsingStartTime of
           None \<Rightarrow> None
         | Some (h1, Inl err, k1) \<Rightarrow> Some (h1, Inl err, k1)
         | Some (h1, Inr (newLeftCondition, timeLeft), k1) \<Rightarrow>
            (case getTimeStore fuel env k1 h1 (Right (h1 a)) isParsingStartTime of
               None \<Rightarrow> None
             | Some (h2, Inl err, k2) \<Rightarrow> Some (h2, Inl err, k2)
             | Some (h2, Inr (newRightCondition, timeRight), k2) \<Rightarrow>
                if Operation (h2 a) = ''OR'' \<and> (timeLeft \<noteq> ZERO_TIME \<or> timeRight \<noteq> ZERO_TIME)
                then Some (h2, Inl ConflictingOrTimeBounds, k2)
                else
                  (let (h3, newCondition) =
                     (if newLeftCondition = None then (h2, newRightCondition)
                      else if newRightCondition = None then (h2, newLeftCondition)
                      else (h2(a := assignLeftRight (h2 a) newLeftCondition newRightCondition),
                            Some a))
                   in
                     if timeLeft = ZERO_TIME then Some (h3, Inr (newCondition, timeRight), k2)
                     else if timeRight = ZERO_TIME then Some (h3, Inr (newCondition, timeLeft), k2)
                     else if isParsingStartTime \<and> Unix timeLeft < Unix timeRight
                       then Some (h3, Inr (newCondition, timeLeft), k2)
                     else if \<not> isParsingStartTime \<and> Unix timeLeft > Unix timeRight
                       then Some (h3, Inr (newCondition, timeLeft), k2)
                     else Some (h3, Inr (newCondition, timeRight), k2)))))"

text \<open>
  What the store holds. \<open>treeAt h t a A\<close> says that the node at address \<open>a\<close> of the
  store \<open>h\<close> is the root of the tree \<open>t\<close>, whose nodes take the addresses \<open>A\<close>, no
  address twice. \<open>represents\<close> relates a result of the extractor on the store to a
  result on the tree: the same error, or the same time with a pointer to the tree
  that is left. \<open>depth\<close> is the number of nodes on the longest path of a tree.
\<close>

fun depth :: "WhereCondition \<Rightarrow> nat" where
  "depth (BoolExpression expr) = 1"
| "depth (Condition l operation r) = Suc (max (depth l) (depth r))"

fun treeAt :: "store \<Rightarrow> WhereCondition \<Rightarrow> addr \<Rightarrow> addr set \<Rightarrow> bool" where
  "treeAt h (BoolExpression expr) a A = (h a = BoolExpressionNode expr \<and> A = {a})"
| "treeAt h (Condition l operation r) a A =
     (\<exists>al ar Al Ar. h a = ConditionNode (Some al) operation (Some ar)
        \<and> treeAt h l al Al \<and> treeAt h r ar Ar
        \<and> Al \<inter> Ar = {} \<and> a \<notin> Al \<and> a \<notin> Ar \<and> A = insert a (Al \<union> Ar))"

definition represents ::
  "store \<Rightarrow> addr set \<Rightarrow> (error + addr option \<times> Time)
     \<Rightarrow> (error + WhereCondition option \<times> Time) \<Rightarrow> bool" where
  "represents h A R r =
     (case r of
        Inl err \<Rightarrow> R = Inl err
      | Inr (None, t) \<Rightarrow> R = Inr (None, t)
      | Inr (Some c, t) \<Rightarrow> (\<exists>a' A'. R = Inr (Some a', t) \<and> treeAt h c a' A' \<and> A' \<subseteq> A))"

text \<open>\<open>childrenOnly h h'\<close>: from \<open>h\<close> to \<open>h'\<close> every leaf is unchanged, and every
  interior node is an interior node with the same operation.\<close>

definition childrenOnly :: "store \<Rightarrow> store \<Rightarrow> bool" where
  "childrenOnly h h' =
     (\<forall>a. case h a of
            BoolExpressionNode expr \<Rightarrow> h' a = BoolExpressionNode expr
          | ConditionNode l operation r \<Rightarrow> (\<exists>l' r'. h' a = ConditionNode l' operation r'))"

section \<open>The column-reference resolver\<close>

text \<open>
  A Go map from strings to slices is an association list with distinct keys:
  \<open>mapGet\<close> is the index expression \<^verbatim>\<open>mapping[key]\<close> (\<^verbatim>\<open>nil\<close>, the empty slice, for a
  missing key), \<open>AList.update\<close> the assignment and \<open>AList.delete\<close> the built-in
  \<^verbatim>\<open>delete\<close>. The order in which \<^verbatim>\<open>range\<close> visits the keys of a map is not fixed by
  the language: it is a parameter \<open>rangeOrder\<close> of the model, which maps the keys of
  the map to the order of the visit, and \<open>rangeOrderOk\<close> says that each key is visited
  once.
\<close>

type_synonym ColumnMapping = "(string \<times> string list) list"

definition mapGet :: "ColumnMapping \<Rightarrow> string \<Rightarrow> string list" where
  "mapGet mapping key = (case map_of mapping key of None \<Rightarrow> [] | Some columns \<Rightarrow> columns)"

definition rangeOrderOk :: "(string list \<Rightarrow> string list) \<Rightarrow> bool" where
  "rangeOrderOk rangeOrder =
     (\<forall>keys. distinct keys \<longrightarrow> distinct (rangeOrder keys) \<and> set (rangeOrder keys) = set keys)"

text \<open>\<^verbatim>\<open>uniq\<close> (lines 19 to 31): the distinct names, sorted by \<^verbatim>\<open>sort.Strings\<close>, which
  compares strings byte by byte.\<close>

definition uniq :: "string list \<Rightarrow> string list" where
  "uniq slice = sort (remdups slice)"

text \<open>\<^verbatim>\<open>strings.LastIndex\<close> of the Go standard library, for a separator of one byte:
  the index of its last occurrence, \<open>None\<close> for \<^verbatim>\<open>-1\<close>.\<close>

fun LastIndex :: "string \<Rightarrow> char \<Rightarrow> nat option" where
  "LastIndex [] sep = None"
| "LastIndex (c # s) sep =
     (case LastIndex s sep of
        Some idx \<Rightarrow> Some (Suc idx)
      | None \<Rightarrow> if c = sep then Some 0 else None)"

text \<open>
  \<^verbatim>\<open>getReferencedColumnsFromValue\<close> (lines 265 to 288) returns the slice \<^verbatim>\<open>notAssigned\<close>
  and updates the map it was given; the model returns the map as well. The loop over
  \<^verbatim>\<open>v.Elems\<close> (lines 278 to 285) is \<open>getReferencedColumnsFromElems\<close>.
\<close>

fun getReferencedColumnsFromValue :: "Value \<Rightarrow> ColumnMapping \<Rightarrow> string list \<times> ColumnMapping"
  and getReferencedColumnsFromElems ::
    "Value list \<Rightarrow> string list \<Rightarrow> ColumnMapping \<Rightarrow> string list \<times> ColumnMapping" where
  "getReferencedColumnsFromValue (Value name ty elems re) mapping =
    (if ty = ValueSimpleName \<or> ty = ValueTableName then
       (case LastIndex name (CHR ''.'') of
          Some idx \<Rightarrow>
            (let tableName = take idx name;
                 columnName = drop (idx + 1) name
             in ([], AList.update tableName (mapGet mapping tableName @ [columnName]) mapping))
        | None \<Rightarrow> ([name], mapping))
     else if ty = ValueWildcard then ([''*''], mapping)
     else if ty = ValueExpression \<or> ty = ValueFunctionCall
       then getReferencedColumnsFromElems elems [] mapping
     else ([], mapping))"
| "getReferencedColumnsFromElems [] notAssigned mapping = (notAssigned, mapping)"
| "getReferencedColumnsFromElems (v # rest) notAssigned mapping =
    (case getReferencedColumnsFromValue v mapping of
       (newNotAssignedColumns, mapping1) \<Rightarrow>
         getReferencedColumnsFromElems rest
           (notAssigned @
              (if length newNotAssignedColumns > 0 \<and> newNotAssignedColumns ! 0 = ''*''
               then drop 1 newNotAssignedColumns else newNotAssignedColumns))
           mapping1)"

text \<open>\<^verbatim>\<open>getReferencedColumnsFromCondition\<close> (lines 290 to 300). It only reads the
  tree, so it is defined on the tree as a value.\<close>

fun getReferencedColumnsFromCondition ::
  "WhereCondition \<Rightarrow> ColumnMapping \<Rightarrow> string list \<times> ColumnMapping" where
  "getReferencedColumnsFromCondition (Condition left operation right) mapping =
    (case getReferencedColumnsFromCondition left mapping of
       (notPrefixedLeft, mapping1) \<Rightarrow>
         (case getReferencedColumnsFromCondition right mapping1 of
            (notPrefixedRight, mapping2) \<Rightarrow> (notPrefixedLeft @ notPrefixedRight, mapping2)))"
| "getReferencedColumnsFromCondition (BoolExpression expr) mapping =
     getReferencedColumnsFromValue expr mapping"

text \<open>Modelled from the spec: the from-clause (section 3) and the parts of a select
  query that the resolver reads; \<open>IsSinglePointQuery\<close> is the result of the method of
  that name.\<close>

datatype FromClauseType = FromClauseArray | FromClauseInnerJoin

record TableName =
  TableValue :: Value
  Alias :: string

record FromClause =
  FromType :: FromClauseType
  Names :: "TableName list"

record SelectQuery =
  ColumnNames :: "Value list"
  GetFromClause :: FromClause
  GetWhereCondition :: "WhereCondition option"
  GroupByElems :: "Value list"
  IsSinglePointQuery :: bool

text \<open>
  \<^verbatim>\<open>revertAlias\<close> (lines 73 to 106). \<open>revertAliasTables\<close> is the first loop: \<open>columns\<close>
  maps a table name to its set of columns (a list without repetition).
  \<open>revertAliasColumns\<close> is the second loop, over the tables in \<open>tables\<close>.
\<close>

fun revertAliasTables ::
  "TableName list \<Rightarrow> ColumnMapping \<Rightarrow> ColumnMapping \<Rightarrow> ColumnMapping \<times> ColumnMapping" where
  "revertAliasTables [] columns mapping = (columns, mapping)"
| "revertAliasTables (table # rest) columns mapping =
    (let name = Name (TableValue table);
         alias = (if Alias table \<noteq> [] then Alias table else name);
         columns1 =
           fold (\<lambda>column cols. AList.update name (List.insert column (mapGet cols name)) cols)
             (mapGet mapping alias) columns
     in revertAliasTables rest columns1 (AList.delete alias mapping))"

definition revertAliasColumns ::
  "(string list \<Rightarrow> string list) \<Rightarrow> string list \<Rightarrow> ColumnMapping \<Rightarrow> ColumnMapping
     \<Rightarrow> ColumnMapping" where
  "revertAliasColumns rangeOrder tables columns mapping =
     fold (\<lambda>table m. AList.update table (rangeOrder (mapGet columns table)) m) tables mapping"

definition revertAlias ::
  "(string list \<Rightarrow> string list) \<Rightarrow> FromClause \<Rightarrow> ColumnMapping \<Rightarrow> ColumnMapping" where
  "revertAlias rangeOrder fromClause mapping =
    (if FromType fromClause \<noteq> FromClauseInnerJoin then mapping
     else
       (case revertAliasTables (Names fromClause) [] mapping of
          (columns, mapping1) \<Rightarrow>
            revertAliasColumns rangeOrder (rangeOrder (map fst columns)) columns mapping1))"

text \<open>
  \<^verbatim>\<open>GetReferencedColumns\<close> (lines 110 to 179), loop by loop.

  \<open>columnNamesLoop\<close> is the loop of lines 114 to 119 and \<open>groupByLoop\<close> the loop of
  lines 126 to 128; \<open>collectColumns\<close> is lines 111 to 129 and gives the slice
  \<^verbatim>\<open>notPrefixedColumns\<close> before \<^verbatim>\<open>uniq\<close> and the map \<^verbatim>\<open>mapping\<close>.
\<close>

fun columnNamesLoop ::
  "Value list \<Rightarrow> string list \<Rightarrow> ColumnMapping \<Rightarrow> string list \<times> ColumnMapping" where
  "columnNamesLoop [] notPrefixedColumns mapping = (notPrefixedColumns, mapping)"
| "columnNamesLoop (v # rest) notPrefixedColumns mapping =
    (if Name v = ''time'' \<or> Name v = ''sequence_number''
     then columnNamesLoop rest notPrefixedColumns mapping
     else
       (case getReferencedColumnsFromValue v mapping of
          (notAssigned, mapping1) \<Rightarrow>
            columnNamesLoop rest (notPrefixedColumns @ notAssigned) mapping1))"

fun groupByLoop ::
  "Value list \<Rightarrow> string list \<Rightarrow> ColumnMapping \<Rightarrow> string list \<times> ColumnMapping" where
  "groupByLoop [] notPrefixedColumns mapping = (notPrefixedColumns, mapping)"
| "groupByLoop (groupBy # rest) notPrefixedColumns mapping =
    (case getReferencedColumnsFromValue groupBy mapping of
       (notAssigned, mapping1) \<Rightarrow> groupByLoop rest (notPrefixedColumns @ notAssigned) mapping1)"

definition collectColumns :: "SelectQuery \<Rightarrow> string list \<times> ColumnMapping" where
  "collectColumns self =
    (case columnNamesLoop (ColumnNames self) [] [] of
       (notPrefixedColumns, mapping) \<Rightarrow>
         if \<not> IsSinglePointQuery self then
           (case (case GetWhereCondition self of
                    None \<Rightarrow> (notPrefixedColumns, mapping)
                  | Some condition \<Rightarrow>
                      (case getReferencedColumnsFromCondition condition mapping of
                         (notPrefixed, mapping1) \<Rightarrow> (notPrefixedColumns @ notPrefixed, mapping1)))
            of (notPrefixedColumns1, mapping1) \<Rightarrow>
                 groupByLoop (GroupByElems self) notPrefixedColumns1 mapping1)
         else (notPrefixedColumns, mapping))"

text \<open>
  The loop over the tables of the from-clause (lines 138 to 158). The key of
  \<^verbatim>\<open>returnedMapping\<close> is the pointer \<^verbatim>\<open>*Value\<close> held by a table of the from-clause: each
  table holds a pointer of its own, and the model takes the position of the table in
  \<^verbatim>\<open>Names\<close> as the key. \<open>i\<close> is the position of the first table of the list.
\<close>

type_synonym ReturnedMapping = "(nat \<times> string list) list"

fun tablesLoop ::
  "TableName list \<Rightarrow> nat \<Rightarrow> string list \<Rightarrow> string list \<Rightarrow> ReturnedMapping \<Rightarrow> ColumnMapping
     \<Rightarrow> ReturnedMapping \<times> ColumnMapping" where
  "tablesLoop [] i notPrefixedColumns addedTables returnedMapping mapping =
     (returnedMapping, mapping)"
| "tablesLoop (tableName # rest) i notPrefixedColumns addedTables returnedMapping mapping =
    (let v = TableValue tableName in
       if GetCompiledRegex v
       then tablesLoop rest (Suc i) notPrefixedColumns addedTables
              (AList.update i notPrefixedColumns returnedMapping) mapping
       else
         (let name = Name v in
            if name \<in> set addedTables
            then tablesLoop rest (Suc i) notPrefixedColumns addedTables returnedMapping mapping
            else
              (let columns = uniq (mapGet mapping name @ notPrefixedColumns);
                   columns1 = (if length columns > 1 \<and> columns ! 0 = ''*''
                               then take 1 columns else columns)
               in tablesLoop rest (Suc i) notPrefixedColumns (name # addedTables)
                    (AList.update i columns1 returnedMapping) (AList.delete name mapping))))"

text \<open>
  The recovery of lines 166 to 176: \<open>attachColumn\<close> is the innermost loop, over the
  tables of \<^verbatim>\<open>returnedMapping\<close>, for one \<^verbatim>\<open>prefix\<close> and one \<^verbatim>\<open>columnName\<close>;
  \<open>leftoverLoop\<close> runs it for the prefixes in \<open>prefixes\<close> and their columns.
\<close>

definition attachColumn :: "string \<Rightarrow> string \<Rightarrow> ReturnedMapping \<Rightarrow> ReturnedMapping" where
  "attachColumn prefix columnName returnedMapping =
     map (\<lambda>(table, columns).
            if length columns > 1 \<and> columns ! 0 = ''*'' then (table, columns)
            else (table, columns @ [prefix @ ''.'' @ columnName]))
       returnedMapping"

definition leftoverLoop :: "string list \<Rightarrow> ColumnMapping \<Rightarrow> ReturnedMapping \<Rightarrow> ReturnedMapping" where
  "leftoverLoop prefixes mapping returnedMapping =
     fold (\<lambda>prefix returned. fold (attachColumn prefix) (mapGet mapping prefix) returned)
       prefixes returnedMapping"

definition notPrefixedColumnsOf :: "SelectQuery \<Rightarrow> string list" where
  "notPrefixedColumnsOf self = uniq (fst (collectColumns self))"

definition tablesOf ::
  "(string list \<Rightarrow> string list) \<Rightarrow> SelectQuery \<Rightarrow> ReturnedMapping \<times> ColumnMapping" where
  "tablesOf rangeOrder self =
     tablesLoop (Names (GetFromClause self)) 0 (notPrefixedColumnsOf self) [] []
       (revertAlias rangeOrder (GetFromClause self) (snd (collectColumns self)))"

definition GetReferencedColumns ::
  "(string list \<Rightarrow> string list) \<Rightarrow> SelectQuery \<Rightarrow> ReturnedMapping" where
  "GetReferencedColumns rangeOrder self =
    (case tablesOf rangeOrder self of
       (returnedMapping, mapping) \<Rightarrow>
         if length mapping = 0 then returnedMapping
         else leftoverLoop (rangeOrder (map fst mapping)) mapping returnedMapping)"

text \<open>No name of the list contains a dot.\<close>

definition noDot :: "string list \<Rightarrow> bool" where
  "noDot columns = (\<forall>c \<in> set columns. CHR ''.'' \<notin> set c)"

section \<open>Sample inputs\<close>

text \<open>
  Concrete values for the instances below. \<open>sampleDuration\<close> stands in for
  \<^verbatim>\<open>common.ParseTimeDuration\<close> on the literals used here: decimal digits followed by
  the unit \<^verbatim>\<open>u\<close> (microseconds) or \<^verbatim>\<open>s\<close> (seconds), giving nanoseconds.
\<close>

fun digitValue :: "char \<Rightarrow> int option" where
  "digitValue c =
     (if CHR ''0'' \<le> c \<and> c \<le> CHR ''9'' then Some (int (of_char c) - 48) else None)"

fun parseDigits :: "int \<Rightarrow> string \<Rightarrow> int option" where
  "parseDigits acc [] = Some acc"
| "parseDigits acc (c # cs) =
     (case digitValue c of None \<Rightarrow> None | Some d \<Rightarrow> parseDigits (10 * acc + d) cs)"

definition unitNanoseconds :: "char \<Rightarrow> int option" where
  "unitNanoseconds c =
     (if c = CHR ''u'' then Some 1000
      else if c = CHR ''s'' then Some 1000000000
      else None)"

definition sampleDuration :: "string \<Rightarrow> error + int" where
  "sampleDuration s =
     (if length s < 2 then Inl (InvalidDuration s)
      else case (parseDigits 0 (butlast s), unitNanoseconds (last s)) of
             (Some n, Some u) \<Rightarrow> Inr (wrap64 (n * u))
           | _ \<Rightarrow> Inl (InvalidDuration s))"

definition rejectTimeString :: "string \<Rightarrow> error + int" where
  "rejectTimeString s = Inl (InvalidTimeString s)"

definition sampleClock :: "nat \<Rightarrow> int" where
  "sampleClock k = 1700000000000000000 + 1000 * int k"

definition sampleEnv :: TimeEnv where
  "sampleEnv = \<lparr>Now = sampleClock,
                 parseTimeString = rejectTimeString,
                 ParseTimeDuration = sampleDuration\<rparr>"

definition functionCall :: "string \<Rightarrow> Value" where
  "functionCall s = Value s ValueFunctionCall [] False"

definition simpleName :: "string \<Rightarrow> Value" where
  "simpleName s = Value s ValueSimpleName [] False"

definition tableValue :: "string \<Rightarrow> Value" where
  "tableValue s = Value s ValueTableName [] False"

definition regexValue :: "string \<Rightarrow> Value" where
  "regexValue s = Value s ValueRegex [] True"

definition wildcard :: Value where
  "wildcard = Value ''*'' ValueWildcard [] False"

definition durationLiteral :: "string \<Rightarrow> Value" where
  "durationLiteral s = Value s ValueDuration [] False"

definition intLiteral :: "string \<Rightarrow> Value" where
  "intLiteral s = Value s ValueInt [] False"

definition stringLiteral :: "string \<Rightarrow> Value" where
  "stringLiteral s = Value s ValueString [] False"

definition comparison :: "string \<Rightarrow> Value \<Rightarrow> Value \<Rightarrow> Value" where
  "comparison op l r = Value op ValueExpression [l, r] False"

text \<open>\<^verbatim>\<open>SELECT value FROM a AS x INNER JOIN b AS y WHERE x.host = 'srv1'\<close>\<close>

definition joinQuery :: SelectQuery where
  "joinQuery =
    \<lparr>ColumnNames = [simpleName ''value''],
     GetFromClause = \<lparr>FromType = FromClauseInnerJoin,
                      Names = [\<lparr>TableValue = tableValue ''a'', Alias = ''x''\<rparr>,
                               \<lparr>TableValue = tableValue ''b'', Alias = ''y''\<rparr>]\<rparr>,
     GetWhereCondition =
       Some (BoolExpression (comparison ''='' (simpleName ''x.host'') (stringLiteral ''srv1''))),
     GroupByElems = [],
     IsSinglePointQuery = False\<rparr>"

text \<open>\<^verbatim>\<open>SELECT * FROM /.*cpu.*/\<close>\<close>

definition regexQuery :: SelectQuery where
  "regexQuery =
    \<lparr>ColumnNames = [wildcard],
     GetFromClause = \<lparr>FromType = FromClauseArray,
                      Names = [\<lparr>TableValue = regexValue ''.*cpu.*'', Alias = []\<rparr>]\<rparr>,
     GetWhereCondition = None,
     GroupByElems = [],
     IsSinglePointQuery = False\<rparr>"

text \<open>\<^verbatim>\<open>SELECT a.b FROM /.*cpu.*/\<close>, where \<^verbatim>\<open>a.b\<close> is a column whose name has a dot.\<close>

definition dottedRegexQuery :: SelectQuery where
  "dottedRegexQuery =
    \<lparr>ColumnNames = [simpleName ''a.b''],
     GetFromClause = \<lparr>FromType = FromClauseArray,
                      Names = [\<lparr>TableValue = regexValue ''.*cpu.*'', Alias = []\<rparr>]\<rparr>,
     GetWhereCondition = None,
     GroupByElems = [],
     IsSinglePointQuery = False\<rparr>"

text \<open>\<^verbatim>\<open>SELECT * FROM /.*cpu.*/ WHERE host = 'a'\<close>\<close>

definition regexWhereQuery :: SelectQuery where
  "regexWhereQuery =
    \<lparr>ColumnNames = [wildcard],
     GetFromClause = \<lparr>FromType = FromClauseArray,
                      Names = [\<lparr>TableValue = regexValue ''.*cpu.*'', Alias = []\<rparr>]\<rparr>,
     GetWhereCondition =
       Some (BoolExpression (comparison ''='' (simpleName ''host'') (stringLiteral ''a''))),
     GroupByElems = [],
     IsSinglePointQuery = False\<rparr>"

text \<open>\<^verbatim>\<open>SELECT * FROM t WHERE host = 'x' AND a.b = 1\<close>\<close>

definition wildcardDottedQuery :: SelectQuery where
  "wildcardDottedQuery =
    \<lparr>ColumnNames = [wildcard],
     GetFromClause = \<lparr>FromType = FromClauseArray,
                      Names = [\<lparr>TableValue = tableValue ''t'', Alias = []\<rparr>]\<rparr>,
     GetWhereCondition =
       Some (Condition
               (BoolExpression (comparison ''='' (simpleName ''host'') (stringLiteral ''x'')))
               ''AND''
               (BoolExpression (comparison ''='' (simpleName ''a.b'') (intLiteral ''1'')))),
     GroupByElems = [],
     IsSinglePointQuery = False\<rparr>"

text \<open>A store with the tree \<^verbatim>\<open>(time > 5s AND time < 9s) AND host = 'a'\<close>: the root at
  address 0, the inner node at 1, the leaves at 2, 3 and 4 (and at every other
  address).\<close>

definition sampleStore :: store where
  "sampleStore =
     (\<lambda>a. BoolExpressionNode (comparison ''='' (simpleName ''host'') (stringLiteral ''a'')))
       (0 := ConditionNode (Some 1) ''AND'' (Some 4),
        1 := ConditionNode (Some 2) ''AND'' (Some 3),
        2 := BoolExpressionNode (comparison ''>'' (simpleName ''time'') (durationLiteral ''5s'')),
        3 := BoolExpressionNode (comparison ''<'' (simpleName ''time'') (durationLiteral ''9s'')))"

definition sampleTree :: WhereCondition where
  "sampleTree =
     Condition
       (Condition
          (BoolExpression (comparison ''>'' (simpleName ''time'') (durationLiteral ''5s'')))
          ''AND''
          (BoolExpression (comparison ''<'' (simpleName ''time'') (durationLiteral ''9s''))))
       ''AND''
       (BoolExpression (comparison ''='' (simpleName ''host'') (stringLiteral ''a'')))"

text \<open>One admissible order of \<^verbatim>\<open>range\<close>: the keys as they are listed.\<close>

definition keyOrder :: "string list \<Rightarrow> string list" where
  "keyOrder keys = keys"

section \<open>Basic facts\<close>

lemmas value_defs =
  simpleName_def tableValue_def regexValue_def wildcard_def durationLiteral_def
  intLiteral_def stringLiteral_def comparison_def functionCall_def

lemmas sample_defs =
  sampleEnv_def sampleClock_def sampleDuration_def rejectTimeString_def unitNanoseconds_def

lemmas leaf_defs =
  getTimeBoolExpression_def getTimeOperator_def isNumericValue_def IsFunctionCall_def

lemmas time_defs =
  wrap64_def timeOfNanoseconds_def time_Unix_def quo64_def rem64_def Second_def toUTC_def
  ZERO_TIME_def Unix_def

lemmas resolver_defs =
  GetReferencedColumns_def tablesOf_def notPrefixedColumnsOf_def collectColumns_def
  revertAlias_def revertAliasColumns_def mapGet_def uniq_def GetCompiledRegex_def
  leftoverLoop_def attachColumn_def

text \<open>A time that \<^verbatim>\<open>getTime\<close> builds has the location \<^verbatim>\<open>UTC\<close>, and \<^verbatim>\<open>ZERO_TIME\<close> the
  location \<^verbatim>\<open>Local\<close>: the comparison \<^verbatim>\<open>!= ZERO_TIME\<close> holds of every time taken from a
  leaf, also of the epoch itself.\<close>

lemma timeOfNanoseconds_not_ZERO: "timeOfNanoseconds n \<noteq> ZERO_TIME"
  by (simp add: timeOfNanoseconds_def toUTC_def ZERO_TIME_def time_Unix_def Let_def)

lemma location_timeOfNanoseconds: "location (timeOfNanoseconds n) = UTC"
  by (simp add: timeOfNanoseconds_def toUTC_def)

lemma keyOrder_ok: "rangeOrderOk keyOrder"
  by (simp add: rangeOrderOk_def keyOrder_def)

lemma rangeOrder_Nil:
  assumes "rangeOrderOk rangeOrder"
  shows "rangeOrder [] = []"
  using assms[unfolded rangeOrderOk_def, rule_format, of "[]"] by simp

lemma rangeOrder_single:
  assumes "rangeOrderOk rangeOrder"
  shows "rangeOrder [k] = [k]"
proof -
  from assms have d: "distinct (rangeOrder [k])" and s: "set (rangeOrder [k]) = {k}"
    by (simp_all add: rangeOrderOk_def)
  from s obtain y ys where e: "rangeOrder [k] = y # ys"
    by (cases "rangeOrder [k]") auto
  with s d have "y = k" "set ys \<subseteq> {k}" "k \<notin> set ys"
    by auto
  then have "ys = []"
    by (cases ys) auto
  with e \<open>y = k\<close> show ?thesis
    by simp
qed

lemma LastIndex_None: "LastIndex s c = None \<longleftrightarrow> c \<notin> set s"
  by (induction s) (auto split: option.splits)

lemma LastIndex_append:
  "c \<notin> set column \<Longrightarrow> LastIndex (prefix @ c # column) c = Some (length prefix)"
  by (induction prefix) (auto simp: LastIndex_None split: option.splits)

lemma last_dot_unique:
  fixes c :: char
  assumes "p @ c # s = p' @ c # s'" and "c \<notin> set s" and "c \<notin> set s'"
  shows "p' = p \<and> s' = s"
proof -
  have "LastIndex (p @ c # s) c = Some (length p)"
    by (rule LastIndex_append[OF assms(2)])
  moreover have "LastIndex (p' @ c # s') c = Some (length p')"
    by (rule LastIndex_append[OF assms(3)])
  ultimately have "length p = length p'"
    using assms(1) by simp
  with assms(1) show ?thesis
    by simp
qed

lemma noDot_simps [simp]:
  "noDot []"
  "noDot (c # cs) = (CHR ''.'' \<notin> set c \<and> noDot cs)"
  "noDot (xs @ ys) = (noDot xs \<and> noDot ys)"
  by (auto simp: noDot_def)

lemma noDot_drop: "noDot xs \<Longrightarrow> noDot (drop n xs)"
  by (auto simp: noDot_def dest: in_set_dropD)

lemma sampleStore_simps:
  "sampleStore 0 = ConditionNode (Some 1) ''AND'' (Some 4)"
  "sampleStore 1 = ConditionNode (Some 2) ''AND'' (Some 3)"
  "sampleStore (Suc 0) = ConditionNode (Some 2) ''AND'' (Some 3)"
  "sampleStore 2 =
     BoolExpressionNode (comparison ''>'' (simpleName ''time'') (durationLiteral ''5s''))"
  "sampleStore 3 =
     BoolExpressionNode (comparison ''<'' (simpleName ''time'') (durationLiteral ''9s''))"
  "sampleStore 4 =
     BoolExpressionNode (comparison ''='' (simpleName ''host'') (stringLiteral ''a''))"
  by (simp_all add: sampleStore_def)

lemma sample_time_greater:
  "getTimeBoolExpression sampleEnv k
     (comparison ''>'' (simpleName ''time'') (durationLiteral ''5s'')) b
   = (if b then (Inr (False, \<lparr>unix_sec = 5, unix_nsec = 0, location = UTC\<rparr>), k)
      else (Inr (True, ZERO_TIME), k))"
  by (simp add: value_defs sample_defs leaf_defs time_defs)

lemma sample_time_less:
  "getTimeBoolExpression sampleEnv k
     (comparison ''<'' (simpleName ''time'') (durationLiteral ''9s'')) b
   = (if b then (Inr (True, ZERO_TIME), k)
      else (Inr (False, \<lparr>unix_sec = 9, unix_nsec = 0, location = UTC\<rparr>), k))"
  by (simp add: value_defs sample_defs leaf_defs time_defs)

lemma sample_host:
  "getTimeBoolExpression sampleEnv k
     (comparison ''='' (simpleName ''host'') (stringLiteral ''a'')) b
   = (Inr (True, ZERO_TIME), k)"
  by (simp add: value_defs sample_defs leaf_defs)

lemmas sample_leaves =
  sampleStore_simps sample_time_greater sample_time_less sample_host
  ZERO_TIME_def time_Unix_def Unix_def

text \<open>The extraction of the start time from the root of the sample store, with fuel 3.\<close>

lemma sampleStore_start:
  "getTimeStore (Suc (Suc (Suc 0))) sampleEnv 0 sampleStore (Some 0) True
      = Some (sampleStore(0 := ConditionNode (Some 3) ''AND'' (Some 4)),
              Inr (Some 0, \<lparr>unix_sec = 5, unix_nsec = 0, location = UTC\<rparr>), 0)"
  by (simp add: sample_leaves)

text \<open>A literal reads no clock; each \<^verbatim>\<open>now()\<close> takes a reading of its own, so that
  \<^verbatim>\<open>now() - now()\<close> is the difference of two successive readings.\<close>

lemma parseTime_literal:
  "isNumericValue T \<Longrightarrow> snd (parseTime env k T) = k"
  by (cases T) (auto simp: isNumericValue_def IsFunctionCall_def)

lemma parseTime_now_minus_now:
  "parseTime env k (Value ''-'' ValueExpression [functionCall ''now'', functionCall ''now''] re)
     = (Inr (wrap64 (Now env k - Now env (Suc k))), Suc (Suc k))"
  by (simp add: functionCall_def IsFunctionCall_def)

section \<open>Properties of the time-bound extractor\<close>

text \<open>
  C1 (counterexample). For the leaf \<^verbatim>\<open>time = 5s\<close> both modes return the leaf itself,
  not \<^verbatim>\<open>nil\<close>: line 426 returns \<^verbatim>\<open>condition\<close>. The time returned is not the value of
  \<^verbatim>\<open>5s\<close> either (5 seconds): line 422 multiplies the nanoseconds of \<^verbatim>\<open>parseTime\<close> by
  1000, which gives 5000 seconds.
\<close>

theorem getTime_time_equals_example:
  "getTime sampleEnv 0
     (Some (BoolExpression (comparison ''='' (simpleName ''time'') (durationLiteral ''5s'')))) True
    = (Inr (Some (BoolExpression (comparison ''='' (simpleName ''time'') (durationLiteral ''5s''))),
            \<lparr>unix_sec = 5000, unix_nsec = 0, location = UTC\<rparr>), 0)
   \<and> getTime sampleEnv 0
     (Some (BoolExpression (comparison ''='' (simpleName ''time'') (durationLiteral ''5s'')))) False
    = (Inr (Some (BoolExpression (comparison ''='' (simpleName ''time'') (durationLiteral ''5s''))),
            \<lparr>unix_sec = 5000, unix_nsec = 0, location = UTC\<rparr>), 0)
   \<and> parseTime sampleEnv 0 (durationLiteral ''5s'') = (Inr 5000000000, 0)
   \<and> timeOfNanoseconds 5000000000 = \<lparr>unix_sec = 5, unix_nsec = 0, location = UTC\<rparr>"
  by (simp add: value_defs sample_defs leaf_defs time_defs)

text \<open>
  C1 (amended). For a leaf \<^verbatim>\<open>time = T\<close>, where \<open>T\<close> is a literal (duration, float, int or
  string) that \<^verbatim>\<open>parseTime\<close> evaluates, the extractor returns in both modes the same
  result: the leaf itself, which is not consumed, with a time that differs from
  \<^verbatim>\<open>ZERO_TIME\<close>.
\<close>

theorem getTime_time_equals:
  assumes "Type timeValue \<noteq> ValueExpression" and "Type timeValue \<noteq> ValueFunctionCall"
    and "Name timeValue = ''time''" and "isNumericValue T"
    and "parseTime env k T = (Inr n, k')"
  shows "\<exists>t. t \<noteq> ZERO_TIME \<and>
     (\<forall>isParsingStartTime.
        getTime env k (Some (BoolExpression (Value ''='' ValueExpression [timeValue, T] re)))
            isParsingStartTime
          = (Inr (Some (BoolExpression (Value ''='' ValueExpression [timeValue, T] re)), t), k'))"
  using assms
  by (intro exI[of _ "timeOfNanoseconds (wrap64 (n * 1000))"])
     (auto simp: leaf_defs timeOfNanoseconds_not_ZERO)

theorem getTime_time_equals_witness:
  "parseTime sampleEnv 0 (durationLiteral ''5s'') = (Inr 5000000000, 0) \<and>
   (\<exists>t. t \<noteq> ZERO_TIME \<and>
     (\<forall>isParsingStartTime.
        getTime sampleEnv 0
          (Some (BoolExpression
             (Value ''='' ValueExpression [simpleName ''time'', durationLiteral ''5s''] False)))
            isParsingStartTime
          = (Inr (Some (BoolExpression
             (Value ''='' ValueExpression [simpleName ''time'', durationLiteral ''5s''] False)), t),
             0)))"
proof -
  have p: "parseTime sampleEnv 0 (durationLiteral ''5s'') = (Inr 5000000000, 0)"
    by (simp add: value_defs sample_defs leaf_defs time_defs)
  have "Type (simpleName ''time'') \<noteq> ValueExpression"
    and "Type (simpleName ''time'') \<noteq> ValueFunctionCall"
    and "Name (simpleName ''time'') = ''time''"
    and "isNumericValue (durationLiteral ''5s'')"
    by (simp_all add: value_defs isNumericValue_def)
  from getTime_time_equals[OF this p] p show ?thesis
    by blast
qed

text \<open>The time that the case \<^verbatim>\<open>"="\<close> returns: the value of \<^verbatim>\<open>parseTime\<close>, which is in
  nanoseconds, is taken for microseconds and multiplied by 1000 (line 422).\<close>

lemma equals_case_scales_by_1000:
  assumes "Type timeValue \<noteq> ValueExpression" and "Type timeValue \<noteq> ValueFunctionCall"
    and "Name timeValue = ''time''" and "isNumericValue T"
    and "parseTime env k T = (Inr n, k')"
  shows "getTime env k (Some (BoolExpression (Value ''='' ValueExpression [timeValue, T] re))) b
          = (Inr (Some (BoolExpression (Value ''='' ValueExpression [timeValue, T] re)),
                  timeOfNanoseconds (wrap64 (n * 1000))), k')"
  using assms by (auto simp: leaf_defs)

text \<open>
  C2 (counterexample). In \<^verbatim>\<open>time > 5s OR host = 'a'\<close> only the left branch yields a time
  when the start time is extracted, and the extractor fails with
  \<open>ConflictingOrTimeBounds\<close>: the test of line 448 is a disjunction.
\<close>

theorem getTime_or_one_sided_example:
  "getTime sampleEnv 0
     (Some (BoolExpression (comparison ''>'' (simpleName ''time'') (durationLiteral ''5s'')))) True
      = (Inr (None, \<lparr>unix_sec = 5, unix_nsec = 0, location = UTC\<rparr>), 0)
   \<and> getTime sampleEnv 0
     (Some (BoolExpression (comparison ''='' (simpleName ''host'') (stringLiteral ''a'')))) True
      = (Inr (Some (BoolExpression (comparison ''='' (simpleName ''host'') (stringLiteral ''a''))),
              ZERO_TIME), 0)
   \<and> getTime sampleEnv 0 (Some (Condition
         (BoolExpression (comparison ''>'' (simpleName ''time'') (durationLiteral ''5s'')))
         ''OR''
         (BoolExpression (comparison ''='' (simpleName ''host'') (stringLiteral ''a''))))) True
      = (Inl ConflictingOrTimeBounds, 0)"
  by (simp add: value_defs sample_defs leaf_defs time_defs)

text \<open>
  C2 (amended). For an interior \<^verbatim>\<open>OR\<close> node whose two branches are extracted without
  error, the left one and then the right one, the extractor fails with
  \<open>ConflictingOrTimeBounds\<close> exactly when at least one of the branches yields a time
  other than \<^verbatim>\<open>ZERO_TIME\<close>; when neither does, it raises no error and returns
  \<^verbatim>\<open>ZERO_TIME\<close>.
\<close>

theorem getTime_or_conflict:
  assumes "getTime env k (Some l) b = (Inr (newLeft, timeLeft), k1)"
    and "getTime env k1 (Some r) b = (Inr (newRight, timeRight), k2)"
  shows "((getTime env k (Some (Condition l ''OR'' r)) b = (Inl ConflictingOrTimeBounds, k2))
           = (timeLeft \<noteq> ZERO_TIME \<or> timeRight \<noteq> ZERO_TIME))
       \<and> (timeLeft = ZERO_TIME \<and> timeRight = ZERO_TIME \<longrightarrow>
           (\<exists>c. getTime env k (Some (Condition l ''OR'' r)) b = (Inr (c, ZERO_TIME), k2)))"
  using assms by (auto simp: Let_def)

theorem getTime_or_conflict_witness:
  "getTime sampleEnv 0 (Some (Condition
         (BoolExpression (comparison ''<'' (simpleName ''time'') (durationLiteral ''9s'')))
         ''OR''
         (BoolExpression (comparison ''='' (simpleName ''host'') (stringLiteral ''a''))))) False
      = (Inl ConflictingOrTimeBounds, 0)"
proof -
  have l: "getTime sampleEnv 0
     (Some (BoolExpression (comparison ''<'' (simpleName ''time'') (durationLiteral ''9s'')))) False
      = (Inr (None, timeOfNanoseconds 9000000000), 0)"
    by (simp add: value_defs sample_defs leaf_defs wrap64_def)
  have r: "getTime sampleEnv 0
     (Some (BoolExpression (comparison ''='' (simpleName ''host'') (stringLiteral ''a'')))) False
      = (Inr (Some (BoolExpression (comparison ''='' (simpleName ''host'') (stringLiteral ''a''))),
              ZERO_TIME), 0)"
    by (simp add: value_defs sample_defs leaf_defs)
  from getTime_or_conflict[OF l r] show ?thesis
    by (simp add: timeOfNanoseconds_not_ZERO)
qed

text \<open>
  C3. For the tree that is the one leaf \<^verbatim>\<open>time > T\<close>, where \<open>T\<close> is a literal (duration,
  float, int or string) that \<^verbatim>\<open>parseTime\<close> evaluates to \<open>n\<close> nanoseconds: extracting the
  start time consumes the leaf and returns the time of \<open>n\<close>; extracting the end time
  returns the leaf unchanged with \<^verbatim>\<open>ZERO_TIME\<close>.
\<close>

theorem getTime_time_greater:
  assumes "Type timeValue \<noteq> ValueExpression" and "Type timeValue \<noteq> ValueFunctionCall"
    and "Name timeValue = ''time''" and "isNumericValue T"
    and "parseTime env k T = (Inr n, k')"
  shows "getTime env k (Some (BoolExpression (Value ''>'' ValueExpression [timeValue, T] re))) True
           = (Inr (None, timeOfNanoseconds n), k')
       \<and> getTime env k (Some (BoolExpression (Value ''>'' ValueExpression [timeValue, T] re))) False
           = (Inr (Some (BoolExpression (Value ''>'' ValueExpression [timeValue, T] re)),
                   ZERO_TIME), k)"
  using assms by (auto simp: leaf_defs)

theorem getTime_time_greater_witness:
  "parseTime sampleEnv 0 (durationLiteral ''5s'') = (Inr 5000000000, 0)
   \<and> getTime sampleEnv 0
       (Some (BoolExpression
          (Value ''>'' ValueExpression [simpleName ''time'', durationLiteral ''5s''] False))) True
       = (Inr (None, \<lparr>unix_sec = 5, unix_nsec = 0, location = UTC\<rparr>), 0)
   \<and> getTime sampleEnv 0
       (Some (BoolExpression
          (Value ''>'' ValueExpression [simpleName ''time'', durationLiteral ''5s''] False))) False
       = (Inr (Some (BoolExpression
          (Value ''>'' ValueExpression [simpleName ''time'', durationLiteral ''5s''] False)),
               ZERO_TIME), 0)"
proof -
  have p: "parseTime sampleEnv 0 (durationLiteral ''5s'') = (Inr 5000000000, 0)"
    by (simp add: value_defs sample_defs leaf_defs time_defs)
  have t: "timeOfNanoseconds 5000000000 = \<lparr>unix_sec = 5, unix_nsec = 0, location = UTC\<rparr>"
    by (simp add: time_defs)
  have "Type (simpleName ''time'') \<noteq> ValueExpression"
    and "Type (simpleName ''time'') \<noteq> ValueFunctionCall"
    and "Name (simpleName ''time'') = ''time''"
    and "isNumericValue (durationLiteral ''5s'')"
    by (simp_all add: value_defs isNumericValue_def)
  from getTime_time_greater[OF this p, of False] p t show ?thesis
    by simp
qed

text \<open>
  C4 (the code at the failing input). In \<^verbatim>\<open>time > 1200000u AND time > 1500000u\<close> the
  branches yield 1.2 s and 1.5 s. Lines 469 and 472 compare \<^verbatim>\<open>Unix()\<close>, the whole
  seconds, which are equal, so the start time returned is the right one, 1.5 s, the
  later of the two.
\<close>

theorem getTime_and_same_second_example:
  "getTime sampleEnv 0
     (Some (BoolExpression (comparison ''>'' (simpleName ''time'') (durationLiteral ''1200000u''))))
     True
      = (Inr (None, \<lparr>unix_sec = 1, unix_nsec = 200000000, location = UTC\<rparr>), 0)
   \<and> getTime sampleEnv 0
     (Some (BoolExpression (comparison ''>'' (simpleName ''time'') (durationLiteral ''1500000u''))))
     True
      = (Inr (None, \<lparr>unix_sec = 1, unix_nsec = 500000000, location = UTC\<rparr>), 0)
   \<and> getTime sampleEnv 0 (Some (Condition
         (BoolExpression (comparison ''>'' (simpleName ''time'') (durationLiteral ''1200000u'')))
         ''AND''
         (BoolExpression (comparison ''>'' (simpleName ''time'') (durationLiteral ''1500000u'')))))
     True
      = (Inr (None, \<lparr>unix_sec = 1, unix_nsec = 500000000, location = UTC\<rparr>), 0)"
  by (simp add: value_defs sample_defs leaf_defs time_defs)

text \<open>
  What the code does at an \<^verbatim>\<open>AND\<close> node (any operation other than \<^verbatim>\<open>OR\<close>) whose two
  branches yield a time: the times are compared by their whole seconds. The left time
  is returned when its second is strictly the earlier (start) or the later (end), the
  right time otherwise, whatever the nanoseconds are.
\<close>

lemma and_node_compares_seconds:
  assumes "getTime env k (Some l) b = (Inr (newLeft, timeLeft), k1)"
    and "getTime env k1 (Some r) b = (Inr (newRight, timeRight), k2)"
    and "timeLeft \<noteq> ZERO_TIME" and "timeRight \<noteq> ZERO_TIME"
    and "operation \<noteq> ''OR''"
  shows "\<exists>c. getTime env k (Some (Condition l operation r)) b =
           (Inr (c, if b then (if Unix timeLeft < Unix timeRight then timeLeft else timeRight)
                    else (if Unix timeLeft > Unix timeRight then timeLeft else timeRight)), k2)"
  using assms by (auto simp: Let_def)

text \<open>
  C5. A leaf whose boolean expression is a bare value of kind duration, float, int,
  string or wildcard is rejected with \<open>InvalidWhereExpression\<close>, whichever bound is
  being extracted.
\<close>

theorem getTime_bare_literal:
  assumes "Type expr \<in> {ValueDuration, ValueFloat, ValueInt, ValueString, ValueWildcard}"
  shows "getTime env k (Some (BoolExpression expr)) isParsingStartTime
           = (Inl (InvalidWhereExpression expr), k)"
  using assms by (simp add: getTimeBoolExpression_def)

theorem getTime_bare_literal_witness:
  "getTime sampleEnv 0 (Some (BoolExpression (durationLiteral ''5s''))) True
     = (Inl (InvalidWhereExpression (durationLiteral ''5s'')), 0)
   \<and> getTime sampleEnv 0 (Some (BoolExpression wildcard)) False
     = (Inl (InvalidWhereExpression wildcard), 0)"
  using getTime_bare_literal[of "durationLiteral ''5s''" sampleEnv 0 True]
    getTime_bare_literal[of wildcard sampleEnv 0 False]
  by (simp add: value_defs)

section \<open>The extractor and the nodes of its input\<close>

text \<open>
  C6 (counterexample). The store holds \<^verbatim>\<open>(time > 5s AND time < 9s) AND host = 'a'\<close> with
  the root at address 0. Extracting the start time assigns to the root:
  its \<^verbatim>\<open>Left\<close> pointed to the node at 1 and now points to the leaf at 3. A second
  call over the same root, for the end time, sees \<^verbatim>\<open>time < 9s AND host = 'a'\<close> and
  returns the leaf at 4; on the store as it was before the first call it returns the
  root, rewritten to \<^verbatim>\<open>time > 5s AND host = 'a'\<close>.
\<close>

theorem getTimeStore_rewrites_root_example:
  "sampleStore 0 = ConditionNode (Some 1) ''AND'' (Some 4)
   \<and> getTimeStore (Suc (Suc (Suc 0))) sampleEnv 0 sampleStore (Some 0) True
      = Some (sampleStore(0 := ConditionNode (Some 3) ''AND'' (Some 4)),
              Inr (Some 0, \<lparr>unix_sec = 5, unix_nsec = 0, location = UTC\<rparr>), 0)
   \<and> getTimeStore (Suc (Suc (Suc 0))) sampleEnv 0
        (sampleStore(0 := ConditionNode (Some 3) ''AND'' (Some 4))) (Some 0) False
      = Some (sampleStore(0 := ConditionNode (Some 3) ''AND'' (Some 4)),
              Inr (Some 4, \<lparr>unix_sec = 9, unix_nsec = 0, location = UTC\<rparr>), 0)
   \<and> getTimeStore (Suc (Suc (Suc 0))) sampleEnv 0 sampleStore (Some 0) False
      = Some (sampleStore(0 := ConditionNode (Some 2) ''AND'' (Some 4)),
              Inr (Some 0, \<lparr>unix_sec = 9, unix_nsec = 0, location = UTC\<rparr>), 0)"
  by (simp add: sample_leaves)

lemma childrenOnly_refl: "childrenOnly h h"
  by (auto simp: childrenOnly_def split: Node.splits)

lemma childrenOnly_trans:
  assumes "childrenOnly h h1" and "childrenOnly h1 h2"
  shows "childrenOnly h h2"
  unfolding childrenOnly_def
proof
  fix a
  from assms(1) have 1: "case h a of
      BoolExpressionNode expr \<Rightarrow> h1 a = BoolExpressionNode expr
    | ConditionNode l operation r \<Rightarrow> (\<exists>l' r'. h1 a = ConditionNode l' operation r')"
    by (simp add: childrenOnly_def)
  from assms(2) have 2: "case h1 a of
      BoolExpressionNode expr \<Rightarrow> h2 a = BoolExpressionNode expr
    | ConditionNode l operation r \<Rightarrow> (\<exists>l' r'. h2 a = ConditionNode l' operation r')"
    by (simp add: childrenOnly_def)
  from 1 2 show "case h a of
      BoolExpressionNode expr \<Rightarrow> h2 a = BoolExpressionNode expr
    | ConditionNode l operation r \<Rightarrow> (\<exists>l' r'. h2 a = ConditionNode l' operation r')"
    by (auto split: Node.splits)
qed

lemma childrenOnly_assign: "childrenOnly h (h(a := assignLeftRight (h a) l r))"
  by (cases "h a") (auto simp: childrenOnly_def split: Node.splits)

lemma getTimeStore_childrenOnly:
  "getTimeStore fuel env k h condition b = Some (h', result, k') \<Longrightarrow> childrenOnly h h'"
proof (induction fuel env k h condition b arbitrary: h' result k' rule: getTimeStore.induct)
  case (1 env k h condition b)
  then show ?case by simp
next
  case (2 fuel env k h b)
  then show ?case by (simp add: childrenOnly_refl)
next
  case (3 fuel env k h a b)
  show ?case
  proof (cases "h a")
    case (BoolExpressionNode expr)
    with 3(3) show ?thesis
      by (auto simp: childrenOnly_refl split: sum.splits prod.splits)
  next
    case (ConditionNode l operation r)
    note node = this
    from 3(3) node obtain h1 r1 k1
      where s1: "getTimeStore fuel env k h l b = Some (h1, r1, k1)"
      by (auto split: option.splits)
    from 3(1)[OF node s1] have c1: "childrenOnly h h1" .
    show ?thesis
    proof (cases r1)
      case (Inl err)
      with 3(3) node s1 c1 show ?thesis by simp
    next
      case (Inr p1)
      obtain nl tl where p1: "p1 = (nl, tl)" by (cases p1)
      from 3(3) node s1 Inr p1 obtain h2 r2 k2
        where s2: "getTimeStore fuel env k1 h1 (Right (h1 a)) b = Some (h2, r2, k2)"
        by (auto split: option.splits)
      have c2: "childrenOnly h1 h2"
        by (rule 3(2)[OF node s1 refl refl Inr p1[symmetric] s2])
      note c12 = childrenOnly_trans[OF c1 c2]
      show ?thesis
      proof (cases r2)
        case (Inl err)
        with 3(3) node s1 s2 \<open>r1 = Inr p1\<close> p1 c12 show ?thesis by simp
      next
        case (Inr p2)
        obtain nr tr where p2: "p2 = (nr, tr)" by (cases p2)
        have "h' = h2 \<or> h' = h2(a := assignLeftRight (h2 a) nl nr)"
          using 3(3) node s1 s2 \<open>r1 = Inr p1\<close> p1 Inr p2
          by (auto simp: Let_def split: if_splits)
        then show ?thesis
          using c12 childrenOnly_trans[OF c12 childrenOnly_assign] by auto
      qed
    qed
  qed
qed

text \<open>
  The two models agree on trees. When the store holds the tree \<open>t\<close> at \<open>a\<close>, each
  node once, the extractor on the store returns with any fuel from the depth of \<open>t\<close>
  on; it leaves the store outside \<open>t\<close> as it was; it reads the clock as often as
  \<open>getTime\<close> on \<open>t\<close> does; and its result is the result of \<open>getTime\<close> on \<open>t\<close>: the same
  error, or the same time with a pointer to the tree that \<open>getTime\<close> returns, which
  the store then holds in nodes of \<open>t\<close>.
\<close>

lemma treeAt_frame:
  "treeAt h t a A \<Longrightarrow> (\<forall>x\<in>A. h' x = h x) \<Longrightarrow> treeAt h' t a A"
proof (induction t arbitrary: a A)
  case (BoolExpression expr)
  then show ?case by simp
next
  case (Condition l operation r)
  from Condition.prems(1) obtain al ar Al Ar where
    n: "h a = ConditionNode (Some al) operation (Some ar)"
    and l: "treeAt h l al Al" and r: "treeAt h r ar Ar"
    and d: "Al \<inter> Ar = {}" "a \<notin> Al" "a \<notin> Ar" and A: "A = insert a (Al \<union> Ar)"
    by auto
  from Condition.prems(2) A have "\<forall>x\<in>Al. h' x = h x" "\<forall>x\<in>Ar. h' x = h x" "h' a = h a"
    by auto
  with Condition.IH(1)[OF l] Condition.IH(2)[OF r] n d A show ?case
    by auto
qed

lemma treeAt_root: "treeAt h t a A \<Longrightarrow> a \<in> A"
  by (cases t) auto

lemma treeAt_ConditionI:
  assumes "h a = ConditionNode (Some al) operation (Some ar)"
    and "treeAt h l al Al" and "treeAt h r ar Ar"
    and "Al \<inter> Ar = {}" and "a \<notin> Al" and "a \<notin> Ar"
  shows "treeAt h (Condition l operation r) a (insert a (Al \<union> Ar))"
  using assms by (simp only: treeAt.simps) blast

lemma represents_frame:
  assumes "represents h A R r" and "\<forall>x\<in>A. h' x = h x" and "A \<subseteq> B"
  shows "represents h' B R r"
proof (cases r)
  case (Inl err)
  with assms(1) show ?thesis
    by (simp add: represents_def)
next
  case (Inr p)
  obtain c t where p: "p = (c, t)"
    by (cases p)
  show ?thesis
  proof (cases c)
    case None
    with assms(1) Inr p show ?thesis
      by (simp add: represents_def)
  next
    case (Some x)
    with assms(1) Inr p obtain a' A' where
      R: "R = Inr (Some a', t)" and t: "treeAt h x a' A'" and s: "A' \<subseteq> A"
      by (auto simp: represents_def)
    from assms(2) s have "\<forall>x\<in>A'. h' x = h x"
      by auto
    from treeAt_frame[OF t this] s assms(3) R Inr p Some show ?thesis
      by (auto simp: represents_def)
  qed
qed

lemma represents_Inr:
  assumes "represents h A R (Inr (c, t))"
  shows "\<exists>p. R = Inr (p, t) \<and>
    (case c of None \<Rightarrow> p = None
     | Some c' \<Rightarrow> (\<exists>a' A'. p = Some a' \<and> treeAt h c' a' A' \<and> A' \<subseteq> A))"
  using assms by (cases c) (auto simp: represents_def)

text \<open>One interior node whose branches succeed, on the store and on the tree: the
  two equations that the proofs below unfold.\<close>

lemma getTimeStore_node:
  assumes "h a = ConditionNode left operation right"
    and "getTimeStore fuel env k h left b = Some (h1, Inr (pl, timeLeft), k1)"
    and "h1 a = h a"
    and "getTimeStore fuel env k1 h1 right b = Some (h2, Inr (pr, timeRight), k2)"
    and "h2 a = h a"
  shows "getTimeStore (Suc fuel) env k h (Some a) b =
    (if operation = ''OR'' \<and> (timeLeft \<noteq> ZERO_TIME \<or> timeRight \<noteq> ZERO_TIME)
     then Some (h2, Inl ConflictingOrTimeBounds, k2)
     else Some (if pl = None \<or> pr = None then h2 else h2(a := ConditionNode pl operation pr),
                Inr (if pl = None then pr else if pr = None then pl else Some a,
                     if timeLeft = ZERO_TIME then timeRight
                     else if timeRight = ZERO_TIME then timeLeft
                     else if b \<and> Unix timeLeft < Unix timeRight then timeLeft
                     else if \<not> b \<and> Unix timeLeft > Unix timeRight then timeLeft
                     else timeRight),
                k2))"
  using assms by auto

lemma getTime_node:
  assumes "getTime env k (Some l) b = (Inr (newLeft, timeLeft), k1)"
    and "getTime env k1 (Some r) b = (Inr (newRight, timeRight), k2)"
  shows "getTime env k (Some (Condition l operation r)) b =
    (if operation = ''OR'' \<and> (timeLeft \<noteq> ZERO_TIME \<or> timeRight \<noteq> ZERO_TIME)
     then (Inl ConflictingOrTimeBounds, k2)
     else (Inr (case newLeft of
                  None \<Rightarrow> newRight
                | Some x \<Rightarrow>
                   (case newRight of
                      None \<Rightarrow> Some x
                    | Some y \<Rightarrow> Some (Condition x operation y)),
                if timeLeft = ZERO_TIME then timeRight
                else if timeRight = ZERO_TIME then timeLeft
                else if b \<and> Unix timeLeft < Unix timeRight then timeLeft
                else if \<not> b \<and> Unix timeLeft > Unix timeRight then timeLeft
                else timeRight),
           k2))"
  using assms by (auto simp: Let_def)

theorem getTimeStore_refines_getTime:
  "treeAt h t a A \<Longrightarrow> depth t \<le> fuel \<Longrightarrow>
   \<exists>h' R. getTimeStore fuel env k h (Some a) b = Some (h', R, snd (getTime env k (Some t) b))
      \<and> (\<forall>x. x \<notin> A \<longrightarrow> h' x = h x)
      \<and> represents h' A R (fst (getTime env k (Some t) b))"
proof (induction t arbitrary: h a A fuel k)
  case (BoolExpression expr)
  from BoolExpression.prems obtain n where n: "fuel = Suc n"
    by (cases fuel) auto
  from BoolExpression.prems(1) have h: "h a = BoolExpressionNode expr" and A: "A = {a}"
    by auto
  obtain r0 k1 where g: "getTimeBoolExpression env k expr b = (r0, k1)"
    by (cases "getTimeBoolExpression env k expr b")
  show ?case
    using h A n g
    by (cases r0) (auto simp: represents_def split: prod.splits)
next
  case (Condition l operation r)
  from Condition.prems(2) obtain n
    where n: "fuel = Suc n" and dl: "depth l \<le> n" and dr: "depth r \<le> n"
    by (cases fuel) auto
  from Condition.prems(1) obtain al ar Al Ar where
    node: "h a = ConditionNode (Some al) operation (Some ar)"
    and l: "treeAt h l al Al" and r: "treeAt h r ar Ar"
    and d: "Al \<inter> Ar = {}" "a \<notin> Al" "a \<notin> Ar" and A: "A = insert a (Al \<union> Ar)"
    by auto
  obtain rl k1 where gl: "getTime env k (Some l) b = (rl, k1)"
    by (cases "getTime env k (Some l) b")
  from Condition.IH(1)[OF l dl, of k] gl obtain h1 R1 where
    s1: "getTimeStore n env k h (Some al) b = Some (h1, R1, k1)"
    and f1: "\<forall>x. x \<notin> Al \<longrightarrow> h1 x = h x"
    and r1: "represents h1 Al R1 rl"
    by auto
  show ?case
  proof (cases rl)
    case (Inl err)
    with r1 have "R1 = Inl err"
      by (simp add: represents_def)
    with s1 f1 node n A Inl gl show ?thesis
      by (auto simp: represents_def)
  next
    case (Inr pl0)
    obtain nl tl where pl0: "pl0 = (nl, tl)"
      by (cases pl0)
    note gl' = gl[unfolded Inr pl0]
    from represents_Inr[OF r1[unfolded Inr pl0]] obtain pl where R1: "R1 = Inr (pl, tl)"
      and pl: "case nl of None \<Rightarrow> pl = None
        | Some c' \<Rightarrow> (\<exists>a' A'. pl = Some a' \<and> treeAt h1 c' a' A' \<and> A' \<subseteq> Al)"
      by blast
    from f1 d have h1a: "h1 a = h a"
      by simp
    from f1 d have "\<forall>x\<in>Ar. h1 x = h x"
      by auto
    from treeAt_frame[OF r this] have r': "treeAt h1 r ar Ar" .
    obtain rr k2 where gr: "getTime env k1 (Some r) b = (rr, k2)"
      by (cases "getTime env k1 (Some r) b")
    from Condition.IH(2)[OF r' dr, of k1] gr obtain h2 R2 where
      s2: "getTimeStore n env k1 h1 (Some ar) b = Some (h2, R2, k2)"
      and f2: "\<forall>x. x \<notin> Ar \<longrightarrow> h2 x = h1 x"
      and r2: "represents h2 Ar R2 rr"
      by auto
    from f1 f2 A have f12: "\<forall>x. x \<notin> A \<longrightarrow> h2 x = h x"
      by auto
    show ?thesis
    proof (cases rr)
      case (Inl err)
      with r2 have "R2 = Inl err"
        by (simp add: represents_def)
      with s1 s2 R1 f12 node h1a n A Inl gl' gr show ?thesis
        by (auto simp: represents_def)
    next
      case (Inr pr0)
      obtain nr tr where pr0: "pr0 = (nr, tr)"
        by (cases pr0)
      note gr' = gr[unfolded Inr pr0]
      from represents_Inr[OF r2[unfolded Inr pr0]] obtain pr where R2: "R2 = Inr (pr, tr)"
        and pr: "case nr of None \<Rightarrow> pr = None
          | Some c' \<Rightarrow> (\<exists>a' A'. pr = Some a' \<and> treeAt h2 c' a' A' \<and> A' \<subseteq> Ar)"
        by blast
      from f2 d h1a have h2a: "h2 a = h a"
        by simp
      define h3 where "h3 = (if pl = None \<or> pr = None then h2
         else h2(a := ConditionNode pl operation pr))"
      define p where "p = (if pl = None then pr else if pr = None then pl else Some a)"
      define nc where "nc = (case nl of None \<Rightarrow> nr | Some x \<Rightarrow>
          (case nr of None \<Rightarrow> Some x | Some y \<Rightarrow> Some (Condition x operation y)))"
      define t where "t = (if tl = ZERO_TIME then tr else if tr = ZERO_TIME then tl
            else if b \<and> Unix tl < Unix tr then tl
            else if \<not> b \<and> Unix tl > Unix tr then tl else tr)"
      have store: "getTimeStore fuel env k h (Some a) b =
        (if operation = ''OR'' \<and> (tl \<noteq> ZERO_TIME \<or> tr \<noteq> ZERO_TIME)
         then Some (h2, Inl ConflictingOrTimeBounds, k2)
         else Some (h3, Inr (p, t), k2))"
        unfolding n h3_def p_def t_def
        by (rule getTimeStore_node[OF node s1[unfolded R1] h1a s2[unfolded R2] h2a])
      have tree: "getTime env k (Some (Condition l operation r)) b =
        (if operation = ''OR'' \<and> (tl \<noteq> ZERO_TIME \<or> tr \<noteq> ZERO_TIME)
         then (Inl ConflictingOrTimeBounds, k2)
         else (Inr (nc, t), k2))"
        unfolding nc_def t_def
        by (rule getTime_node[OF gl' gr'])
      have f3: "\<forall>x. x \<notin> A \<longrightarrow> h3 x = h x"
        using f12 A by (auto simp: h3_def)
      have rep: "represents h3 A (Inr (p, t)) (Inr (nc, t))"
      proof (cases nl)
        case None
        with pl have "pl = None"
          by simp
        moreover have "represents h2 A (Inr (pr, t)) (Inr (nr, t))"
          using pr A by (auto simp: represents_def split: option.splits)
        ultimately show ?thesis
          using None by (simp add: nc_def p_def h3_def)
      next
        case (Some x)
        note someL = this
        with pl obtain xl Xl where xl: "pl = Some xl" "treeAt h1 x xl Xl" "Xl \<subseteq> Al"
          by auto
        from f2 d xl(3) have "\<forall>z\<in>Xl. h2 z = h1 z"
          by auto
        from treeAt_frame[OF xl(2) this] have xl2: "treeAt h2 x xl Xl" .
        show ?thesis
        proof (cases nr)
          case None
          with pr have "pr = None"
            by simp
          moreover have "Xl \<subseteq> A"
            using xl(3) A by auto
          ultimately show ?thesis
            using None someL xl(1) xl2
            by (auto simp: nc_def p_def h3_def represents_def simp del: treeAt.simps)
        next
          case (Some y)
          with pr obtain yr Yr where yr: "pr = Some yr" "treeAt h2 y yr Yr" "Yr \<subseteq> Ar"
            by auto
          have h3: "h3 = h2(a := ConditionNode (Some xl) operation (Some yr))"
            using xl yr by (simp add: h3_def)
          from xl(3) d have "\<forall>z\<in>Xl. h3 z = h2 z"
            by (auto simp: h3)
          from treeAt_frame[OF xl2 this] have tx: "treeAt h3 x xl Xl" .
          from yr(3) d have "\<forall>z\<in>Yr. h3 z = h2 z"
            by (auto simp: h3)
          from treeAt_frame[OF yr(2) this] have ty: "treeAt h3 y yr Yr" .
          have "h3 a = ConditionNode (Some xl) operation (Some yr)"
            by (simp add: h3)
          moreover have "Xl \<inter> Yr = {}" "a \<notin> Xl" "a \<notin> Yr"
            using xl(3) yr(3) d by auto
          ultimately have "treeAt h3 (Condition x operation y) a (insert a (Xl \<union> Yr))"
            using tx ty by (intro treeAt_ConditionI)
          moreover have "insert a (Xl \<union> Yr) \<subseteq> A"
            using xl(3) yr(3) A by auto
          ultimately have "\<exists>A'. treeAt h3 (Condition x operation y) a A' \<and> A' \<subseteq> A"
            by blast
          then show ?thesis
            using someL Some xl(1) yr(1)
            by (simp add: nc_def p_def represents_def del: treeAt.simps)
        qed
      qed
      show ?thesis
      proof (cases "operation = ''OR'' \<and> (tl \<noteq> ZERO_TIME \<or> tr \<noteq> ZERO_TIME)")
        case True
        have "getTimeStore fuel env k h (Some a) b = Some (h2, Inl ConflictingOrTimeBounds, k2)"
          unfolding store using True by (rule if_P)
        moreover have "getTime env k (Some (Condition l operation r)) b
            = (Inl ConflictingOrTimeBounds, k2)"
          unfolding tree using True by (rule if_P)
        moreover have "represents h2 A (Inl ConflictingOrTimeBounds)
            (Inl ConflictingOrTimeBounds)"
          by (simp add: represents_def)
        ultimately show ?thesis
          using f12 by (simp del: getTime.simps getTimeStore.simps)
      next
        case False
        have "getTimeStore fuel env k h (Some a) b = Some (h3, Inr (p, t), k2)"
          unfolding store using False by (rule if_not_P)
        moreover have "getTime env k (Some (Condition l operation r)) b = (Inr (nc, t), k2)"
          unfolding tree using False by (rule if_not_P)
        ultimately show ?thesis
          using f3 rep by (simp del: getTime.simps getTimeStore.simps)
      qed
    qed
  qed
qed

text \<open>The sample store holds the sample tree at its root, so the theorem applies
  to it.\<close>

lemma sampleStore_holds_sampleTree: "treeAt sampleStore sampleTree 0 {0, 1, 2, 3, 4}"
proof -
  have 2: "treeAt sampleStore
      (BoolExpression (comparison ''>'' (simpleName ''time'') (durationLiteral ''5s''))) 2 {2}"
    and 3: "treeAt sampleStore
      (BoolExpression (comparison ''<'' (simpleName ''time'') (durationLiteral ''9s''))) 3 {3}"
    and 4: "treeAt sampleStore
      (BoolExpression (comparison ''='' (simpleName ''host'') (stringLiteral ''a''))) 4 {4}"
    by (simp_all add: sampleStore_simps)
  have 1: "treeAt sampleStore
      (Condition
          (BoolExpression (comparison ''>'' (simpleName ''time'') (durationLiteral ''5s'')))
          ''AND''
          (BoolExpression (comparison ''<'' (simpleName ''time'') (durationLiteral ''9s''))))
      1 (insert 1 ({2} \<union> {3}))"
    by (rule treeAt_ConditionI[OF sampleStore_simps(2) 2 3]) simp_all
  have "treeAt sampleStore sampleTree 0 (insert 0 (insert 1 ({2} \<union> {3}) \<union> {4}))"
    unfolding sampleTree_def
    by (rule treeAt_ConditionI[OF sampleStore_simps(1) 1 4]) simp_all
  moreover have "insert 0 (insert 1 ({2} \<union> {3}) \<union> {4}) = {0, 1, 2, 3, 4::nat}"
    by auto
  ultimately show ?thesis
    by (simp only:)
qed

lemma getTimeStore_refines_getTime_sample:
  "\<exists>h' R. getTimeStore 3 sampleEnv 0 sampleStore (Some 0) True
        = Some (h', R, snd (getTime sampleEnv 0 (Some sampleTree) True))
      \<and> (\<forall>x. x \<notin> {0, 1, 2, 3, 4} \<longrightarrow> h' x = sampleStore x)
      \<and> represents h' {0, 1, 2, 3, 4} R (fst (getTime sampleEnv 0 (Some sampleTree) True))"
  by (rule getTimeStore_refines_getTime[OF sampleStore_holds_sampleTree])
     (simp add: sampleTree_def)


text \<open>The assignments of lines 459 and 460 on the store: when both calls return a
  pointer and there is no conflict, the node at \<open>a\<close> is overwritten where it stands and
  \<open>a\<close> itself is returned.\<close>

lemma getTimeStore_assigns:
  assumes "h a = ConditionNode left operation right"
    and "getTimeStore fuel env k h left b = Some (h1, Inr (Some pl, timeLeft), k1)"
    and "getTimeStore fuel env k1 h1 (Right (h1 a)) b = Some (h2, Inr (Some pr, timeRight), k2)"
    and "\<not> (Operation (h2 a) = ''OR'' \<and> (timeLeft \<noteq> ZERO_TIME \<or> timeRight \<noteq> ZERO_TIME))"
  shows "\<exists>t. getTimeStore (Suc fuel) env k h (Some a) b
           = Some (h2(a := assignLeftRight (h2 a) (Some pl) (Some pr)), Inr (Some a, t), k2)"
  using assms by auto

text \<open>
  C6 (amended). Let a store hold a tree, each node once, whose root, at the address
  \<open>a\<close>, is an interior node, and let the extraction from its two branches succeed
  without a conflict under \<^verbatim>\<open>OR\<close>. Then the extractor returns, and
  \<^item> it allocates no node: it writes nothing outside the nodes of the tree, and what
    it returns is \<^verbatim>\<open>nil\<close> or a pointer to a node of the tree;
  \<^item> it writes to no leaf, and every interior node keeps its operation;
  \<^item> when both rewritten branches are not \<^verbatim>\<open>nil\<close>, it returns the root node itself,
    overwritten in place: at \<open>a\<close> the store now holds the rewritten tree (lines 459
    and 460 assign the rewritten branches to \<^verbatim>\<open>Left\<close> and \<^verbatim>\<open>Right\<close> of the input node);
  \<^item> when one of them is \<^verbatim>\<open>nil\<close>, the root node is not written, and the pointer
    returned is not the root.
\<close>

theorem getTimeStore_in_place:
  assumes tree: "treeAt h (Condition l operation r) a A"
    and fuel: "depth (Condition l operation r) \<le> fuel"
    and left: "getTime env k (Some l) b = (Inr (newLeft, timeLeft), k1)"
    and right: "getTime env k1 (Some r) b = (Inr (newRight, timeRight), k2)"
    and ok: "\<not> (operation = ''OR'' \<and> (timeLeft \<noteq> ZERO_TIME \<or> timeRight \<noteq> ZERO_TIME))"
  shows "\<exists>h' p t. getTimeStore fuel env k h (Some a) b = Some (h', Inr (p, t), k2)
      \<and> (\<forall>x. x \<notin> A \<longrightarrow> h' x = h x)
      \<and> (p = None \<or> (\<exists>a'. p = Some a' \<and> a' \<in> A))
      \<and> (\<forall>x expr. h x = BoolExpressionNode expr \<longrightarrow> h' x = BoolExpressionNode expr)
      \<and> (\<forall>x cl op cr. h x = ConditionNode cl op cr
            \<longrightarrow> (\<exists>cl' cr'. h' x = ConditionNode cl' op cr'))
      \<and> (case newLeft of
           None \<Rightarrow> h' a = h a \<and> p \<noteq> Some a
         | Some l' \<Rightarrow>
            (case newRight of
               None \<Rightarrow> h' a = h a \<and> p \<noteq> Some a
             | Some r' \<Rightarrow>
                 p = Some a \<and>
                 (\<exists>A'. treeAt h' (Condition l' operation r') a A' \<and> A' \<subseteq> A)))"
proof -
  from fuel obtain m where m: "fuel = Suc m" and dl: "depth l \<le> m" and dr: "depth r \<le> m"
    by (cases fuel) auto
  from tree obtain al ar Al Ar where
    n: "h a = ConditionNode (Some al) operation (Some ar)"
    and l: "treeAt h l al Al" and r: "treeAt h r ar Ar"
    and d: "Al \<inter> Ar = {}" "a \<notin> Al" "a \<notin> Ar" and A: "A = insert a (Al \<union> Ar)"
    by auto
  from getTimeStore_refines_getTime[OF l dl, of env k b] left obtain h1 R1 where
    s1: "getTimeStore m env k h (Some al) b = Some (h1, R1, k1)"
    and f1: "\<forall>x. x \<notin> Al \<longrightarrow> h1 x = h x"
    and r1: "represents h1 Al R1 (Inr (newLeft, timeLeft))"
    by auto
  from represents_Inr[OF r1] obtain pl where R1: "R1 = Inr (pl, timeLeft)"
    and pl: "case newLeft of None \<Rightarrow> pl = None
      | Some c' \<Rightarrow> (\<exists>a' A'. pl = Some a' \<and> treeAt h1 c' a' A' \<and> A' \<subseteq> Al)"
    by blast
  from f1 d have h1a: "h1 a = h a"
    by simp
  from f1 d have "\<forall>x\<in>Ar. h1 x = h x"
    by auto
  from treeAt_frame[OF r this] have r': "treeAt h1 r ar Ar" .
  from getTimeStore_refines_getTime[OF r' dr, of env k1 b] right obtain h2 R2 where
    s2: "getTimeStore m env k1 h1 (Some ar) b = Some (h2, R2, k2)"
    and f2: "\<forall>x. x \<notin> Ar \<longrightarrow> h2 x = h1 x"
    and r2: "represents h2 Ar R2 (Inr (newRight, timeRight))"
    by auto
  from represents_Inr[OF r2] obtain pr where R2: "R2 = Inr (pr, timeRight)"
    and pr: "case newRight of None \<Rightarrow> pr = None
      | Some c' \<Rightarrow> (\<exists>a' A'. pr = Some a' \<and> treeAt h2 c' a' A' \<and> A' \<subseteq> Ar)"
    by blast
  from f2 d h1a have h2a: "h2 a = h a"
    by simp
  from f1 f2 A have f12: "\<forall>x. x \<notin> A \<longrightarrow> h2 x = h x"
    by auto
  define h3 where "h3 = (if pl = None \<or> pr = None then h2
         else h2(a := ConditionNode pl operation pr))"
  define p where "p = (if pl = None then pr else if pr = None then pl else Some a)"
  define t where "t = (if timeLeft = ZERO_TIME then timeRight
            else if timeRight = ZERO_TIME then timeLeft
            else if b \<and> Unix timeLeft < Unix timeRight then timeLeft
            else if \<not> b \<and> Unix timeLeft > Unix timeRight then timeLeft else timeRight)"
  have store: "getTimeStore fuel env k h (Some a) b = Some (h3, Inr (p, t), k2)"
    using m n s1 R1 h1a s2 R2 h2a ok
    by (auto simp: h3_def p_def t_def)
  have out: "\<forall>x. x \<notin> A \<longrightarrow> h3 x = h x"
    using f12 A by (auto simp: h3_def)
  from getTimeStore_childrenOnly[OF store] have c: "childrenOnly h h3" .
  have leaf: "\<forall>x expr. h x = BoolExpressionNode expr \<longrightarrow> h3 x = BoolExpressionNode expr"
  proof (intro allI impI)
    fix x expr
    assume "h x = BoolExpressionNode expr"
    with c[unfolded childrenOnly_def, rule_format, of x] show "h3 x = BoolExpressionNode expr"
      by simp
  qed
  have node: "\<forall>x cl op cr. h x = ConditionNode cl op cr
            \<longrightarrow> (\<exists>cl' cr'. h3 x = ConditionNode cl' op cr')"
  proof (intro allI impI)
    fix x cl op cr
    assume "h x = ConditionNode cl op cr"
    with c[unfolded childrenOnly_def, rule_format, of x]
    show "\<exists>cl' cr'. h3 x = ConditionNode cl' op cr'"
      by simp
  qed
  have inA: "p = None \<or> (\<exists>a'. p = Some a' \<and> a' \<in> A)"
    using pl pr A
    by (auto simp: p_def split: option.splits dest: treeAt_root)
  have cases: "case newLeft of
           None \<Rightarrow> h3 a = h a \<and> p \<noteq> Some a
         | Some l' \<Rightarrow>
            (case newRight of
               None \<Rightarrow> h3 a = h a \<and> p \<noteq> Some a
             | Some r' \<Rightarrow>
                 p = Some a \<and>
                 (\<exists>A'. treeAt h3 (Condition l' operation r') a A' \<and> A' \<subseteq> A))"
  proof (cases newLeft)
    case None
    with pl have "pl = None"
      by simp
    moreover have "pr \<noteq> Some a"
      using pr d by (auto split: option.splits dest: treeAt_root)
    ultimately show ?thesis
      using None h2a by (simp add: h3_def p_def)
  next
    case (Some l')
    note someL = this
    with pl obtain xl Xl where xl: "pl = Some xl" "treeAt h1 l' xl Xl" "Xl \<subseteq> Al"
      by auto
    from f2 d xl(3) have "\<forall>z\<in>Xl. h2 z = h1 z"
      by auto
    from treeAt_frame[OF xl(2) this] have xl2: "treeAt h2 l' xl Xl" .
    show ?thesis
    proof (cases newRight)
      case None
      with pr have "pr = None"
        by simp
      moreover from treeAt_root[OF xl(2)] xl(3) d have "xl \<noteq> a"
        by auto
      ultimately show ?thesis
        using someL None xl(1) h2a by (simp add: h3_def p_def)
    next
      case (Some r')
      with pr obtain yr Yr where yr: "pr = Some yr" "treeAt h2 r' yr Yr" "Yr \<subseteq> Ar"
        by auto
      have h3: "h3 = h2(a := ConditionNode (Some xl) operation (Some yr))"
        using xl yr by (simp add: h3_def)
      from xl(3) d have "\<forall>z\<in>Xl. h3 z = h2 z"
        by (auto simp: h3)
      from treeAt_frame[OF xl2 this] have tx: "treeAt h3 l' xl Xl" .
      from yr(3) d have "\<forall>z\<in>Yr. h3 z = h2 z"
        by (auto simp: h3)
      from treeAt_frame[OF yr(2) this] have ty: "treeAt h3 r' yr Yr" .
      have "h3 a = ConditionNode (Some xl) operation (Some yr)"
        by (simp add: h3)
      moreover have "Xl \<inter> Yr = {}" "a \<notin> Xl" "a \<notin> Yr"
        using xl(3) yr(3) d by auto
      ultimately have "treeAt h3 (Condition l' operation r') a (insert a (Xl \<union> Yr))"
        using tx ty by (intro treeAt_ConditionI)
      moreover have "insert a (Xl \<union> Yr) \<subseteq> A"
        using xl(3) yr(3) A by auto
      ultimately have "\<exists>A'. treeAt h3 (Condition l' operation r') a A' \<and> A' \<subseteq> A"
        by blast
      then show ?thesis
        using someL Some xl(1) yr(1) by (simp add: p_def del: treeAt.simps)
    qed
  qed
  from store out inA leaf node cases show ?thesis
    by blast
qed

theorem getTimeStore_in_place_witness:
  "\<exists>h' t A'. getTimeStore 3 sampleEnv 0 sampleStore (Some 0) True = Some (h', Inr (Some 0, t), 0)
     \<and> treeAt h'
          (Condition
             (BoolExpression (comparison ''<'' (simpleName ''time'') (durationLiteral ''9s'')))
             ''AND''
             (BoolExpression (comparison ''='' (simpleName ''host'') (stringLiteral ''a''))))
          0 A'
     \<and> A' \<subseteq> {0, 1, 2, 3, 4}
     \<and> (\<forall>x. x \<notin> {0, 1, 2, 3, 4} \<longrightarrow> h' x = sampleStore x)"
proof -
  have l: "getTime sampleEnv 0
      (Some (Condition
          (BoolExpression (comparison ''>'' (simpleName ''time'') (durationLiteral ''5s'')))
          ''AND''
          (BoolExpression (comparison ''<'' (simpleName ''time'') (durationLiteral ''9s'')))))
      True
     = (Inr (Some (BoolExpression (comparison ''<'' (simpleName ''time'') (durationLiteral ''9s''))),
            \<lparr>unix_sec = 5, unix_nsec = 0, location = UTC\<rparr>), 0)"
    by (simp add: sample_time_greater sample_time_less ZERO_TIME_def time_Unix_def)
  have r: "getTime sampleEnv 0
      (Some (BoolExpression (comparison ''='' (simpleName ''host'') (stringLiteral ''a'')))) True
     = (Inr (Some (BoolExpression (comparison ''='' (simpleName ''host'') (stringLiteral ''a''))),
            ZERO_TIME), 0)"
    by (simp add: sample_host)
  have d: "depth (Condition
       (Condition
          (BoolExpression (comparison ''>'' (simpleName ''time'') (durationLiteral ''5s'')))
          ''AND''
          (BoolExpression (comparison ''<'' (simpleName ''time'') (durationLiteral ''9s''))))
       ''AND''
       (BoolExpression (comparison ''='' (simpleName ''host'') (stringLiteral ''a'')))) \<le> 3"
    by simp
  have o: "\<not> (''AND'' = ''OR'' \<and>
      (\<lparr>unix_sec = 5, unix_nsec = 0, location = UTC\<rparr> \<noteq> ZERO_TIME \<or> ZERO_TIME \<noteq> ZERO_TIME))"
    by simp
  from getTimeStore_in_place[OF sampleStore_holds_sampleTree[unfolded sampleTree_def] d l r o]
  show ?thesis
    by (simp del: treeAt.simps getTimeStore.simps) blast
qed

section \<open>Properties of the column-reference resolver\<close>

text \<open>
  C7. For \<^verbatim>\<open>SELECT value FROM a AS x INNER JOIN b AS y WHERE x.host = 'srv1'\<close> the
  resolver returns, whatever the order of \<^verbatim>\<open>range\<close>, the columns \<^verbatim>\<open>host\<close> and \<^verbatim>\<open>value\<close>
  for the first table, \<^verbatim>\<open>a\<close>, and the column \<^verbatim>\<open>value\<close> for the second, \<^verbatim>\<open>b\<close>. On the
  way, the column \<^verbatim>\<open>host\<close> is collected under the alias \<^verbatim>\<open>x\<close>, and \<^verbatim>\<open>revertAlias\<close> moves
  it to the table \<^verbatim>\<open>a\<close>.
\<close>

theorem GetReferencedColumns_join:
  assumes "rangeOrderOk rangeOrder"
  shows "GetReferencedColumns rangeOrder joinQuery
           = [(0, [''host'', ''value'']), (1, [''value''])]
       \<and> map (\<lambda>t. Name (TableValue t)) (Names (GetFromClause joinQuery)) = [''a'', ''b'']
       \<and> collectColumns joinQuery = ([''value''], [(''x'', [''host''])])
       \<and> revertAlias rangeOrder (GetFromClause joinQuery) [(''x'', [''host''])]
           = [(''a'', [''host''])]"
  using rangeOrder_single[OF assms] rangeOrder_Nil[OF assms]
  by (simp add: joinQuery_def value_defs resolver_defs)

theorem GetReferencedColumns_join_witness:
  "GetReferencedColumns keyOrder joinQuery = [(0, [''host'', ''value'']), (1, [''value''])]"
  using GetReferencedColumns_join[OF keyOrder_ok] by simp

text \<open>
  C8 (counterexample). For \<^verbatim>\<open>SELECT a.b FROM /.*cpu.*/\<close> there is no column without
  prefix, and the mapping of the prefix \<^verbatim>\<open>a\<close> is left over after the loop over the
  tables; the recovery of lines 166 to 176 appends \<^verbatim>\<open>a.b\<close> to the list of the regex
  table, which so holds a name with a dot and is not the list of the columns without
  prefix. And \<^verbatim>\<open>SELECT * FROM /.*cpu.*/ WHERE host = 'a'\<close> projects only the wildcard
  from a single regex table, but the list returned is \<^verbatim>\<open>["*", "host"]\<close>: the list of
  a regex table is not collapsed (line 143).
\<close>

theorem GetReferencedColumns_regex_dotted_example:
  "GetCompiledRegex (TableValue (Names (GetFromClause dottedRegexQuery) ! 0))
   \<and> notPrefixedColumnsOf dottedRegexQuery = []
   \<and> GetReferencedColumns keyOrder dottedRegexQuery = [(0, [''a.b''])]
   \<and> ColumnNames regexWhereQuery = [wildcard]
   \<and> map (\<lambda>t. GetCompiledRegex (TableValue t)) (Names (GetFromClause regexWhereQuery)) = [True]
   \<and> GetReferencedColumns keyOrder regexWhereQuery = [(0, [''*'', ''host''])]"
  by (simp add: dottedRegexQuery_def regexWhereQuery_def value_defs resolver_defs keyOrder_def)

lemma noDot_getReferencedColumnsFromValue:
  "noDot (fst (getReferencedColumnsFromValue v mapping))"
  "noDot notAssigned \<Longrightarrow> noDot (fst (getReferencedColumnsFromElems vs notAssigned mapping))"
proof (induction v mapping and vs notAssigned mapping
    rule: getReferencedColumnsFromValue_getReferencedColumnsFromElems.induct)
  case (1 name ty elems re mapping)
  then show ?case
    by (auto simp: LastIndex_None Let_def split: option.splits)
next
  case (2 notAssigned mapping)
  then show ?case by simp
next
  case (3 v rest notAssigned mapping)
  then show ?case
    by (auto simp: noDot_drop split: prod.splits)
qed

lemma noDot_value:
  "getReferencedColumnsFromValue v mapping = (notAssigned, mapping1) \<Longrightarrow> noDot notAssigned"
  using noDot_getReferencedColumnsFromValue(1)[of v mapping] by simp

lemma noDot_columnNamesLoop:
  "noDot acc \<Longrightarrow> noDot (fst (columnNamesLoop vs acc mapping))"
proof (induction vs arbitrary: acc mapping)
  case Nil
  then show ?case by simp
next
  case (Cons v vs)
  obtain x1 x2 where e: "getReferencedColumnsFromValue v mapping = (x1, x2)"
    by (cases "getReferencedColumnsFromValue v mapping")
  with Cons.prems have "noDot (acc @ x1)"
    by (simp add: noDot_value)
  from Cons.IH[OF this] Cons.IH[OF Cons.prems] e show ?case
    by simp
qed

lemma noDot_groupByLoop:
  "noDot acc \<Longrightarrow> noDot (fst (groupByLoop vs acc mapping))"
proof (induction vs arbitrary: acc mapping)
  case Nil
  then show ?case by simp
next
  case (Cons v vs)
  obtain x1 x2 where e: "getReferencedColumnsFromValue v mapping = (x1, x2)"
    by (cases "getReferencedColumnsFromValue v mapping")
  with Cons.prems have "noDot (acc @ x1)"
    by (simp add: noDot_value)
  from Cons.IH[OF this] e show ?case
    by simp
qed

lemma noDot_condition:
  "noDot (fst (getReferencedColumnsFromCondition c mapping))"
  by (induction c mapping rule: getReferencedColumnsFromCondition.induct)
     (auto split: prod.splits simp: noDot_getReferencedColumnsFromValue(1))

lemma noDot_condition_eq:
  "getReferencedColumnsFromCondition c mapping = (notPrefixed, mapping1) \<Longrightarrow> noDot notPrefixed"
  using noDot_condition[of c mapping] by simp

lemma noDot_collectColumns: "noDot (fst (collectColumns self))"
proof -
  obtain a m where c: "columnNamesLoop (ColumnNames self) [] [] = (a, m)"
    by (cases "columnNamesLoop (ColumnNames self) [] []")
  then have a: "noDot a"
    using noDot_columnNamesLoop[of "[]" "ColumnNames self" "[]"] by simp
  show ?thesis
    using a c
    by (auto simp: collectColumns_def split: option.splits prod.splits
        intro!: noDot_groupByLoop dest: noDot_condition_eq)
qed

lemma noDot_notPrefixedColumnsOf: "noDot (notPrefixedColumnsOf self)"
  using noDot_collectColumns[of self]
  by (simp add: notPrefixedColumnsOf_def uniq_def noDot_def)

lemma tablesLoop_before:
  "k < i \<Longrightarrow> map_of (fst (tablesLoop names i np added ret m)) k = map_of ret k"
  by (induction names i np added ret m rule: tablesLoop.induct)
     (auto simp: Let_def update_conv')

lemma tablesLoop_regex:
  "j < length names \<Longrightarrow> GetCompiledRegex (TableValue (names ! j)) \<Longrightarrow>
     map_of (fst (tablesLoop names i np added ret m)) (i + j) = Some np"
proof (induction names i np added ret m arbitrary: j rule: tablesLoop.induct)
  case (1 i np added ret m)
  then show ?case by simp
next
  case (2 tableName rest i np added ret m)
  show ?case
  proof (cases j)
    case 0
    with 2(4,5) show ?thesis
      by (simp add: tablesLoop_before update_conv')
  next
    case (Suc j')
    with 2(4,5) have j': "j' < length rest" "GetCompiledRegex (TableValue (rest ! j'))"
      by simp_all
    show ?thesis
      using 2(1)[OF _ _ j'] 2(2)[OF _ _ _ _ j'] 2(3)[OF _ _ _ _ _ _ j'] Suc
      by (auto simp: Let_def)
  qed
qed

lemma attachColumn_Cons:
  "attachColumn prefix columnName ((table, columns) # rest) =
     (table, if length columns > 1 \<and> columns ! 0 = ''*'' then columns
             else columns @ [prefix @ ''.'' @ columnName])
       # attachColumn prefix columnName rest"
  by (simp add: attachColumn_def)

lemma attachColumn_appends:
  assumes "map_of returnedMapping i = Some (columns @ extra)"
    and "set extra \<subseteq> D" and "prefix @ ''.'' @ columnName \<in> D"
  shows "\<exists>extra'. map_of (attachColumn prefix columnName returnedMapping) i
            = Some (columns @ extra') \<and> set extra' \<subseteq> D"
  using assms(1)
proof (induction returnedMapping)
  case Nil
  then show ?case by simp
next
  case (Cons entry rest)
  obtain table cols where e: "entry = (table, cols)"
    by (cases entry)
  show ?case
  proof (cases "table = i")
    case True
    with Cons.prems e have c: "cols = columns @ extra"
      by simp
    show ?thesis
    proof (cases "length cols > 1 \<and> cols ! 0 = ''*''")
      case True
      with \<open>table = i\<close> e c assms(2) show ?thesis
        by (simp add: attachColumn_Cons)
    next
      case False
      have "set (extra @ [prefix @ ''.'' @ columnName]) \<subseteq> D"
        using assms(2,3) by simp
      moreover have "map_of (attachColumn prefix columnName (entry # rest)) i
          = Some (columns @ (extra @ [prefix @ ''.'' @ columnName]))"
        using False \<open>table = i\<close> e c by (simp add: attachColumn_Cons)
      ultimately show ?thesis
        by blast
    qed
  next
    case False
    with Cons e show ?thesis
      by (simp add: attachColumn_Cons)
  qed
qed

lemma fold_attachColumn_appends:
  "map_of returnedMapping i = Some (columns @ extra) \<Longrightarrow> set extra \<subseteq> D \<Longrightarrow>
   \<forall>c\<in>set columnNames. prefix @ ''.'' @ c \<in> D \<Longrightarrow>
   \<exists>extra'. map_of (fold (attachColumn prefix) columnNames returnedMapping) i
           = Some (columns @ extra') \<and> set extra' \<subseteq> D"
proof (induction columnNames arbitrary: returnedMapping extra)
  case Nil
  then show ?case by auto
next
  case (Cons c cs)
  from Cons.prems(3) have "prefix @ ''.'' @ c \<in> D"
    by simp
  from attachColumn_appends[OF Cons.prems(1,2) this] obtain e
    where "map_of (attachColumn prefix c returnedMapping) i = Some (columns @ e)"
      and "set e \<subseteq> D"
    by blast
  from Cons.IH[OF this] Cons.prems(3) show ?case
    by simp
qed

lemma leftoverLoop_appends:
  "map_of returnedMapping i = Some (columns @ extra) \<Longrightarrow> set extra \<subseteq> D \<Longrightarrow>
   \<forall>p\<in>set prefixes. \<forall>c\<in>set (mapGet mapping p). p @ ''.'' @ c \<in> D \<Longrightarrow>
   \<exists>extra'. map_of (leftoverLoop prefixes mapping returnedMapping) i = Some (columns @ extra')
      \<and> set extra' \<subseteq> D"
proof (induction prefixes arbitrary: returnedMapping extra)
  case Nil
  then show ?case by (auto simp: leftoverLoop_def)
next
  case (Cons p ps)
  from Cons.prems(3) have "\<forall>c\<in>set (mapGet mapping p). p @ ''.'' @ c \<in> D"
    by simp
  from fold_attachColumn_appends[OF Cons.prems(1,2) this] obtain e
    where "map_of (fold (attachColumn p) (mapGet mapping p) returnedMapping) i
             = Some (columns @ e)" and "set e \<subseteq> D"
    by blast
  from Cons.IH[OF this] Cons.prems(3) show ?case
    by (simp add: leftoverLoop_def)
qed

lemma wildcard_only:
  assumes "ColumnNames self = [v]" and "Type v = ValueWildcard"
    and "Name v \<noteq> ''time''" and "Name v \<noteq> ''sequence_number''"
    and "Names (GetFromClause self) = [table]" and "GetCompiledRegex (TableValue table)"
    and "IsSinglePointQuery self \<or> GetWhereCondition self = None \<and> GroupByElems self = []"
    and "rangeOrderOk rangeOrder"
  shows "GetReferencedColumns rangeOrder self = [(0, [''*''])]"
proof -
  have v: "getReferencedColumnsFromValue v [] = ([''*''], [])"
    using assms(2) by (cases v) simp
  have c: "collectColumns self = ([''*''], [])"
    using assms(1,3,4,7) v by (auto simp: collectColumns_def)
  have r: "revertAlias rangeOrder (GetFromClause self) [] = []"
    using assms(5) rangeOrder_Nil[OF assms(8)]
    by (simp add: revertAlias_def revertAliasColumns_def mapGet_def)
  have "tablesOf rangeOrder self = ([(0, [''*''])], [])"
    using c r assms(5,6)
    by (simp add: tablesOf_def notPrefixedColumnsOf_def uniq_def)
  then show ?thesis
    by (simp add: GetReferencedColumns_def)
qed

text \<open>
  C8 (amended). For every select query and every table of its from-clause whose name
  is a regex:
  \<^item> the loop over the tables gives the table exactly the list of the columns without
    prefix, and no name of that list contains a dot;
  \<^item> the list returned for the table begins with that list; it is that list when no
    mapping of a prefix is left over after the loop; otherwise every name that follows
    is \<^verbatim>\<open>prefix.column\<close>, for a prefix left over and a column of its mapping (the
    recovery of lines 166 to 176);
  \<^item> when the query projects only the wildcard (one value of the wildcard type, named
    neither \<^verbatim>\<open>time\<close> nor \<^verbatim>\<open>sequence_number\<close>, the names that line 115 skips), the table is
    the only table of the from-clause, and the query has no WHERE condition and no
    GROUP BY element (or is a single-point query, whose WHERE and GROUP BY are not
    read), then, in whatever order \<^verbatim>\<open>range\<close> visits the maps, the mapping returned has one
    entry, for the regex table, and it is exactly \<^verbatim>\<open>["*"]\<close>.
\<close>

theorem GetReferencedColumns_regex:
  assumes "i < length (Names (GetFromClause self))"
    and "GetCompiledRegex (TableValue (Names (GetFromClause self) ! i))"
  shows "map_of (fst (tablesOf rangeOrder self)) i = Some (notPrefixedColumnsOf self)
    \<and> noDot (notPrefixedColumnsOf self)
    \<and> (\<exists>extra. map_of (GetReferencedColumns rangeOrder self) i
                  = Some (notPrefixedColumnsOf self @ extra)
              \<and> (snd (tablesOf rangeOrder self) = [] \<longrightarrow> extra = [])
              \<and> (\<forall>e\<in>set extra. \<exists>prefix columnName.
                     e = prefix @ ''.'' @ columnName
                   \<and> prefix \<in> set (rangeOrder (map fst (snd (tablesOf rangeOrder self))))
                   \<and> columnName \<in> set (mapGet (snd (tablesOf rangeOrder self)) prefix)))
    \<and> (ColumnNames self = [v] \<and> Type v = ValueWildcard
          \<and> Name v \<noteq> ''time'' \<and> Name v \<noteq> ''sequence_number''
          \<and> length (Names (GetFromClause self)) = 1
          \<and> (IsSinglePointQuery self \<or> GetWhereCondition self = None \<and> GroupByElems self = [])
          \<and> rangeOrderOk rangeOrder
        \<longrightarrow> GetReferencedColumns rangeOrder self = [(0, [''*''])])"
proof -
  obtain returnedMapping mapping
    where t: "tablesOf rangeOrder self = (returnedMapping, mapping)"
    by (cases "tablesOf rangeOrder self")
  define D where "D = {prefix @ ''.'' @ columnName | prefix columnName.
      prefix \<in> set (rangeOrder (map fst mapping)) \<and> columnName \<in> set (mapGet mapping prefix)}"
  have a: "map_of (fst (tablesOf rangeOrder self)) i = Some (notPrefixedColumnsOf self)"
    using tablesLoop_regex[OF assms, of 0] by (simp add: tablesOf_def)
  with t have r: "map_of returnedMapping i = Some (notPrefixedColumnsOf self @ [])"
    by simp
  have b: "\<exists>extra. map_of (GetReferencedColumns rangeOrder self) i
                  = Some (notPrefixedColumnsOf self @ extra)
              \<and> (mapping = [] \<longrightarrow> extra = []) \<and> set extra \<subseteq> D"
  proof (cases "mapping = []")
    case True
    with t r show ?thesis
      by (simp add: GetReferencedColumns_def)
  next
    case False
    have "\<forall>p\<in>set (rangeOrder (map fst mapping)). \<forall>c\<in>set (mapGet mapping p). p @ ''.'' @ c \<in> D"
      by (auto simp: D_def)
    from leftoverLoop_appends[OF r _ this] obtain extra where
      "map_of (leftoverLoop (rangeOrder (map fst mapping)) mapping returnedMapping) i
         = Some (notPrefixedColumnsOf self @ extra)" and "set extra \<subseteq> D"
      by auto
    with False t show ?thesis
      by (auto simp: GetReferencedColumns_def)
  qed
  then obtain extra where e1: "map_of (GetReferencedColumns rangeOrder self) i
                  = Some (notPrefixedColumnsOf self @ extra)"
    and e2: "mapping = [] \<longrightarrow> extra = []" and e3: "set extra \<subseteq> D"
    by blast
  have e4: "\<forall>e\<in>set extra. \<exists>prefix columnName.
                     e = prefix @ ''.'' @ columnName
                   \<and> prefix \<in> set (rangeOrder (map fst mapping))
                   \<and> columnName \<in> set (mapGet mapping prefix)"
    using e3 by (auto simp: D_def)
  have w: "ColumnNames self = [v] \<and> Type v = ValueWildcard
          \<and> Name v \<noteq> ''time'' \<and> Name v \<noteq> ''sequence_number''
          \<and> length (Names (GetFromClause self)) = 1
          \<and> (IsSinglePointQuery self \<or> GetWhereCondition self = None \<and> GroupByElems self = [])
          \<and> rangeOrderOk rangeOrder
        \<longrightarrow> GetReferencedColumns rangeOrder self = [(0, [''*''])]"
  proof
    assume h: "ColumnNames self = [v] \<and> Type v = ValueWildcard
          \<and> Name v \<noteq> ''time'' \<and> Name v \<noteq> ''sequence_number''
          \<and> length (Names (GetFromClause self)) = 1
          \<and> (IsSinglePointQuery self \<or> GetWhereCondition self = None \<and> GroupByElems self = [])
          \<and> rangeOrderOk rangeOrder"
    then obtain table where n: "Names (GetFromClause self) = [table]"
      by (cases "Names (GetFromClause self)") auto
    with assms have "GetCompiledRegex (TableValue table)"
      by simp
    with h n show "GetReferencedColumns rangeOrder self = [(0, [''*''])]"
      by (intro wildcard_only[of self v table]) simp_all
  qed
  from a e1 e2 e4 w t noDot_notPrefixedColumnsOf[of self] show ?thesis
    by auto
qed

theorem GetReferencedColumns_regex_witness:
  "GetCompiledRegex (TableValue (Names (GetFromClause regexQuery) ! 0))
   \<and> rangeOrderOk keyOrder
   \<and> map_of (fst (tablesOf keyOrder regexQuery)) 0 = Some [''*'']
   \<and> noDot [''*'']
   \<and> GetReferencedColumns keyOrder regexQuery = [(0, [''*''])]"
proof -
  have l: "0 < length (Names (GetFromClause regexQuery))"
    and g: "GetCompiledRegex (TableValue (Names (GetFromClause regexQuery) ! 0))"
    by (simp_all add: regexQuery_def value_defs GetCompiledRegex_def)
  have n: "notPrefixedColumnsOf regexQuery = [''*'']"
    by (simp add: regexQuery_def value_defs resolver_defs)
  have w: "ColumnNames regexQuery = [wildcard] \<and> Type wildcard = ValueWildcard
          \<and> Name wildcard \<noteq> ''time'' \<and> Name wildcard \<noteq> ''sequence_number''
          \<and> length (Names (GetFromClause regexQuery)) = 1
          \<and> (IsSinglePointQuery regexQuery
              \<or> GetWhereCondition regexQuery = None \<and> GroupByElems regexQuery = [])
          \<and> rangeOrderOk keyOrder"
    using keyOrder_ok by (simp add: regexQuery_def wildcard_def)
  from GetReferencedColumns_regex[OF l g, of keyOrder wildcard] g n w keyOrder_ok
  show ?thesis
    by simp
qed

text \<open>
  C9 (the code at the failing input). For
  \<^verbatim>\<open>SELECT * FROM t WHERE host = 'x' AND a.b = 1\<close> the list of \<^verbatim>\<open>t\<close> is collapsed to
  \<^verbatim>\<open>["*"]\<close> by the loop over the tables, and the mapping of the prefix \<^verbatim>\<open>a\<close> is left
  over. The test of line 169 asks for more than one element, so it does not hold of the
  collapsed list, and \<^verbatim>\<open>a.b\<close> is appended to it.
\<close>

theorem GetReferencedColumns_wildcard_leftover_example:
  "tablesOf keyOrder wildcardDottedQuery = ([(0, [''*''])], [(''a'', [''b''])])
   \<and> GetReferencedColumns keyOrder wildcardDottedQuery = [(0, [''*'', ''a.b''])]"
  by (simp add: wildcardDottedQuery_def value_defs resolver_defs keyOrder_def)

text \<open>
  C10. For a simple name or table name whose text contains a dot,
  \<^verbatim>\<open>getReferencedColumnsFromValue\<close> splits the text at its last dot: the text before it is
  the key under which the text after it, which has no dot, is appended in the map, and
  nothing is returned for the list of columns without prefix.
\<close>

theorem getReferencedColumnsFromValue_dotted:
  assumes "Type v = ValueSimpleName \<or> Type v = ValueTableName"
    and "CHR ''.'' \<in> set (Name v)"
  shows "\<exists>prefix column. Name v = prefix @ ''.'' @ column \<and> CHR ''.'' \<notin> set column \<and>
     getReferencedColumnsFromValue v mapping
       = ([], AList.update prefix (mapGet mapping prefix @ [column]) mapping)"
proof -
  from split_list_last[OF assms(2)] obtain prefix column
    where n: "Name v = prefix @ CHR ''.'' # column" and c: "CHR ''.'' \<notin> set column"
    by blast
  have "getReferencedColumnsFromValue v mapping
       = ([], AList.update prefix (mapGet mapping prefix @ [column]) mapping)"
    using assms(1) n LastIndex_append[OF c, of prefix]
    by (cases v) (auto simp: Let_def)
  with n c show ?thesis
    by auto
qed

theorem getReferencedColumnsFromValue_dotted_witness:
  "getReferencedColumnsFromValue (simpleName ''a.b.c'') [] = ([], [(''a.b'', [''c''])])"
proof -
  have "Type (simpleName ''a.b.c'') = ValueSimpleName \<or> Type (simpleName ''a.b.c'') = ValueTableName"
    and "CHR ''.'' \<in> set (Name (simpleName ''a.b.c''))"
    by (simp_all add: simpleName_def)
  from getReferencedColumnsFromValue_dotted[OF this, of "[]"]
  obtain prefix column where n: "Name (simpleName ''a.b.c'') = prefix @ ''.'' @ column"
    and c: "CHR ''.'' \<notin> set column"
    and r: "getReferencedColumnsFromValue (simpleName ''a.b.c'') []
       = ([], AList.update prefix (mapGet [] prefix @ [column]) [])"
    by blast
  from n have "''a.b'' @ CHR ''.'' # ''c'' = prefix @ CHR ''.'' # column"
    by (simp add: simpleName_def)
  from last_dot_unique[OF this _ c] have "prefix = ''a.b''" and "column = ''c''"
    by simp_all
  with r show ?thesis
    by (simp add: mapGet_def)
qed

end
